theory Spec2Isabelle
  imports Main "HOL-Library.AList" "HOL-Library.Sublist"
begin

section \<open>JavaScript values\<close>

text \<open>
  The entity layer is TypeScript over untyped records, so the embedding works on
  JavaScript values. Numbers are integers (no claim depends on fractions), an object is
  the list of its own enumerable properties in enumeration order, which is insertion
  order for the attribute and index names used here (property names that read as array
  indices are not used as attribute names).
\<close>

datatype jsval =
    JUndefined
  | JNull
  | JBool bool
  | JNum int
  | JStr string
  | JArr "jsval list"
  | JObj "(string \<times> jsval) list"

type_synonym obj = "(string \<times> jsval) list"

datatype js_error =
    Error string
  | TypeError string
  | Rejected jsval

text \<open>Truthiness, as \<^verbatim>\<open>if (x)\<close>, \<^verbatim>\<open>!x\<close> and \<^verbatim>\<open>a || b\<close> read it.\<close>

fun truthy :: "jsval \<Rightarrow> bool" where
  "truthy JUndefined = False"
| "truthy JNull = False"
| "truthy (JBool b) = b"
| "truthy (JNum n) = (n \<noteq> 0)"
| "truthy (JStr s) = (s \<noteq> [])"
| "truthy (JArr xs) = True"
| "truthy (JObj kvs) = True"

definition js_or :: "jsval \<Rightarrow> jsval \<Rightarrow> jsval" where
  "js_or a b = (if truthy a then a else b)"

fun nullish :: "jsval \<Rightarrow> bool" where
  "nullish JUndefined = True"
| "nullish JNull = True"
| "nullish v = False"

text \<open>\<^verbatim>\<open>a === b\<close>: primitives compare by value; two objects or arrays are equal only
  when they are the same object, and the records compared here come from different
  fetches, so they never are.\<close>

fun strict_equals :: "jsval \<Rightarrow> jsval \<Rightarrow> bool" where
  "strict_equals (JArr xs) b = False"
| "strict_equals (JObj kvs) b = False"
| "strict_equals a b = (a = b)"

subsection \<open>Decimal numerals and property keys\<close>

fun digit_char :: "nat \<Rightarrow> char" where
  "digit_char n = char_of (48 + n mod 10)"

fun show_nat_aux :: "nat \<Rightarrow> nat \<Rightarrow> string \<Rightarrow> string" where
  "show_nat_aux 0 n acc = acc"
| "show_nat_aux (Suc fuel) n acc =
     (if n < 10 then digit_char n # acc
      else show_nat_aux fuel (n div 10) (digit_char n # acc))"

definition show_nat :: "nat \<Rightarrow> string" where
  "show_nat n = show_nat_aux (Suc n) n []"

definition show_int :: "int \<Rightarrow> string" where
  "show_int i = (if i < 0 then CHR ''-'' # show_nat (nat (- i)) else show_nat (nat i))"

fun join_with :: "string \<Rightarrow> string list \<Rightarrow> string" where
  "join_with sep [] = []"
| "join_with sep [s] = s"
| "join_with sep (s # t # r) = s @ sep @ join_with sep (t # r)"

text \<open>\<^verbatim>\<open>String(v)\<close>, which is how a value used as a property name is read.\<close>

primrec js_to_string :: "jsval \<Rightarrow> string" where
  "js_to_string JUndefined = ''undefined''"
| "js_to_string JNull = ''null''"
| "js_to_string (JBool b) = (if b then ''true'' else ''false'')"
| "js_to_string (JNum n) = show_int n"
| "js_to_string (JStr s) = s"
| "js_to_string (JArr xs) =
     join_with '','' (map2 (\<lambda>x s. if nullish x then [] else s) xs (map js_to_string xs))"
| "js_to_string (JObj kvs) = ''[object Object]''"

subsection \<open>Objects\<close>

definition obj_has :: "obj \<Rightarrow> string \<Rightarrow> bool" where
  "obj_has ob k = (map_of ob k \<noteq> None)"

definition obj_get :: "obj \<Rightarrow> string \<Rightarrow> jsval" where
  "obj_get ob k = (case map_of ob k of None \<Rightarrow> JUndefined | Some v \<Rightarrow> v)"

text \<open>\<^verbatim>\<open>o[k] = v\<close>: an existing property keeps its place, a new one goes last.\<close>

definition obj_set :: "obj \<Rightarrow> string \<Rightarrow> jsval \<Rightarrow> obj" where
  "obj_set ob k v = AList.update k v ob"

text \<open>\<^verbatim>\<open>{...a, ...b}\<close> and an object literal written after a spread.\<close>

definition obj_assign :: "obj \<Rightarrow> obj \<Rightarrow> obj" where
  "obj_assign a b = foldl (\<lambda>acc (k, v). obj_set acc k v) a b"

text \<open>\<^verbatim>\<open>const {k1, k2, ...rest} = o\<close>: the rest without the named keys.\<close>

definition obj_rest :: "string list \<Rightarrow> obj \<Rightarrow> obj" where
  "obj_rest ks ob = filter (\<lambda>(k, v). k \<notin> set ks) ob"

text \<open>The own enumerable properties of any value, as spread and \<^verbatim>\<open>Object.entries\<close>
  enumerate them: the elements of an array and the characters of a string under their
  indices, nothing for the other primitives.\<close>

fun own_entries :: "jsval \<Rightarrow> obj" where
  "own_entries (JObj kvs) = kvs"
| "own_entries (JArr xs) = zip (map show_nat [0..<length xs]) xs"
| "own_entries (JStr s) = zip (map show_nat [0..<length s]) (map (\<lambda>c. JStr [c]) s)"
| "own_entries v = []"

text \<open>\<^verbatim>\<open>v.hasOwnProperty(k)\<close> and \<^verbatim>\<open>v[k]\<close> for an own property; both throw on
  \<^verbatim>\<open>null\<close> and \<^verbatim>\<open>undefined\<close>. Arrays and strings also own \<^verbatim>\<open>length\<close>. The method
  is looked up on the value itself: an own property named \<^verbatim>\<open>hasOwnProperty\<close> shadows the
  inherited method, and as the values here are data and none is a function, calling it
  throws.\<close>

fun own_props :: "jsval \<Rightarrow> obj" where
  "own_props (JArr xs) = own_entries (JArr xs) @ [(''length'', JNum (int (length xs)))]"
| "own_props (JStr s) = own_entries (JStr s) @ [(''length'', JNum (int (length s)))]"
| "own_props v = own_entries v"

definition hasOwnProperty :: "jsval \<Rightarrow> string \<Rightarrow> js_error + bool" where
  "hasOwnProperty v k =
     (if nullish v then Inl (TypeError ''Cannot read properties of undefined or null'')
      else if obj_has (own_props v) ''hasOwnProperty''
      then Inl (TypeError ''hasOwnProperty is not a function'')
      else Inr (obj_has (own_props v) k))"

definition js_get :: "jsval \<Rightarrow> string \<Rightarrow> js_error + jsval" where
  "js_get v k =
     (if nullish v then Inl (TypeError ''Cannot read properties of undefined or null'')
      else Inr (obj_get (own_props v) k))"

text \<open>\<^verbatim>\<open>v?.k\<close>\<close>

definition js_get_opt :: "jsval \<Rightarrow> string \<Rightarrow> jsval" where
  "js_get_opt v k = (if nullish v then JUndefined else obj_get (own_props v) k)"

subsection \<open>Sets and maps in insertion order\<close>

definition Set_add :: "'a list \<Rightarrow> 'a \<Rightarrow> 'a list" where
  "Set_add s x = (if x \<in> set s then s else s @ [x])"

text \<open>\<^verbatim>\<open>Array.from(new Set(xs))\<close>: the first occurrence of each element, in order.\<close>

definition new_Set :: "'a list \<Rightarrow> 'a list" where
  "new_Set xs = foldl Set_add [] xs"

text \<open>\<^verbatim>\<open>m.set(k, v)\<close> on a \<^verbatim>\<open>Map\<close>.\<close>

definition Map_set :: "('k \<times> 'v) list \<Rightarrow> 'k \<Rightarrow> 'v \<Rightarrow> ('k \<times> 'v) list" where
  "Map_set m k v = AList.update k v m"

definition Map_get :: "('k \<times> 'v) list \<Rightarrow> 'k \<Rightarrow> 'v option" where
  "Map_get m k = map_of m k"

definition Map_keys :: "('k \<times> 'v) list \<Rightarrow> 'k list" where
  "Map_keys m = map fst m"

text \<open>Running a list of computations that may throw: the first error wins.\<close>

fun sequence_err :: "('e + 'a) list \<Rightarrow> 'e + 'a list" where
  "sequence_err [] = Inr []"
| "sequence_err (x # xs) =
     (case x of Inl e \<Rightarrow> Inl e
      | Inr v \<Rightarrow> (case sequence_err xs of Inl e \<Rightarrow> Inl e | Inr vs \<Rightarrow> Inr (v # vs)))"

section \<open>The schema model\<close>

text \<open>
  An entity schema: its name, its attributes (name and attribute object, in declaration
  order) and its indexes (name, partition-key composite, optional sort-key composite).
\<close>

record index_def =
  pk_composite :: "string list"
  sk_composite :: "string list option"

record entity_schema =
  model_entity :: string
  attributes :: "(string \<times> jsval) list"
  indexes :: "(string \<times> index_def) list"

section \<open>IO-schema attributes\<close>

text \<open>\<^verbatim>\<open>!att.hasOwnProperty(k) || att[k]\<close> on an attribute specification of the schema.
  A specification is written under the type \<^verbatim>\<open>EntityAttribute\<close>, which has no property
  named \<^verbatim>\<open>hasOwnProperty\<close>, so here the method is the inherited one.\<close>

definition format_flag :: "jsval \<Rightarrow> string \<Rightarrow> jsval" where
  "format_flag att k =
     (if obj_has (own_props att) k then obj_get (own_props att) k else JBool True)"

text \<open>The first destructuring of \<^verbatim>\<open>entityAttributeToIOSchemaAttribute\<close>: what is left of
  the attribute once \<^verbatim>\<open>name, validations, required, relation, default, get, set, watch\<close>
  are taken out.\<close>

definition restMeta :: "jsval \<Rightarrow> obj" where
  "restMeta att =
     obj_rest [''name'', ''validations'', ''required'', ''relation'',
               ''default'', ''get'', ''set'', ''watch''] (own_entries att)"

text \<open>The object literal \<^verbatim>\<open>formatted\<close> with the optional \<^verbatim>\<open>addNewOption\<close>, before the
  nested properties are formatted. \<^verbatim>\<open>toHumanReadableName\<close> is a helper of the utilities
  module and is taken as a parameter.\<close>

definition format_base :: "(string \<Rightarrow> string) \<Rightarrow> string \<Rightarrow> jsval \<Rightarrow> obj" where
  "format_base toHumanReadableName attId att =
     (let a = own_entries att;
          name = obj_get a ''name'';
          validations = obj_get a ''validations'';
          required = obj_get a ''required'';
          relation = obj_get a ''relation'';
          defaultValue = obj_get a ''default'';
          rel = js_or relation (JObj []);
          relatedEntity = obj_get (own_props rel) ''entity'';
          restRelation = obj_rest [''entity''] (own_entries rel);
          relationMeta =
            (if truthy relatedEntity
             then JObj (obj_assign restRelation
                    [(''entity'', js_get_opt (js_get_opt relatedEntity ''model'') ''entity'')])
             else JUndefined);
          type = obj_get (restMeta att) ''type'';
          addNewOption = obj_get (restMeta att) ''addNewOption'';
          restRestMeta =
            obj_rest [''items'', ''type'', ''properties'', ''addNewOption''] (restMeta att);
          formatted = obj_assign restRestMeta
            [(''type'', type),
             (''id'', JStr attId),
             (''name'', js_or name (JStr (toHumanReadableName attId))),
             (''relation'', relationMeta),
             (''defaultValue'', defaultValue),
             (''validations'',
                if truthy (js_or validations required) then JArr [JStr ''required''] else JArr []),
             (''isVisible'', format_flag att ''isVisible''),
             (''isEditable'', format_flag att ''isEditable''),
             (''isListable'', format_flag att ''isListable''),
             (''isCreatable'', format_flag att ''isCreatable''),
             (''isFilterable'', format_flag att ''isFilterable''),
             (''isSearchable'', format_flag att ''isSearchable'')]
      in if truthy addNewOption then obj_set formatted ''addNewOption'' addNewOption
         else formatted)"

text \<open>The nested attributes that the conversion descends into are properties of the
  attribute, so they are smaller than it: the facts that its termination needs.\<close>

lemma map_of_obj_rest:
  "map_of (obj_rest ks ob) k = (if k \<in> set ks then None else map_of ob k)"
  by (induction ob) (auto simp: obj_rest_def)

lemma obj_get_obj_rest:
  "obj_get (obj_rest ks ob) k = (if k \<in> set ks then JUndefined else obj_get ob k)"
  by (simp add: obj_get_def map_of_obj_rest)

lemma size_map_of_less:
  "map_of kvs k = Some v \<Longrightarrow> size v < size_list (size_prod (\<lambda>x. 0) size) kvs + Suc 0"
  by (induction kvs) (auto split: if_splits)

lemma size_obj_get_less: "size (obj_get kvs k) < size (JObj kvs)"
  by (cases "map_of kvs k") (auto simp: obj_get_def dest: size_map_of_less)

lemma size_zip_entry:
  "(k, v) \<in> set (zip ks xs) \<Longrightarrow> size v < size_list size xs + Suc 0"
proof -
  assume "(k, v) \<in> set (zip ks xs)"
  then have "v \<in> set xs" by (rule set_zip_rightD)
  then show ?thesis by (induction xs) auto
qed

lemma size_own_entries_le: "(k, v) \<in> set (own_entries p) \<Longrightarrow> size v \<le> size p"
proof (cases p)
  case (JObj kvs)
  assume "(k, v) \<in> set (own_entries p)"
  with JObj have "(k, v) \<in> set kvs" by simp
  then have "size v < size_list (size_prod (\<lambda>x. 0) size) kvs + Suc 0"
    by (induction kvs) auto
  with JObj show ?thesis by simp
next
  case (JArr xs)
  assume "(k, v) \<in> set (own_entries p)"
  with JArr show ?thesis by (auto dest: size_zip_entry)
next
  case (JStr s)
  assume "(k, v) \<in> set (own_entries p)"
  with JStr show ?thesis by (auto dest!: set_zip_rightD)
qed simp_all

lemma size_obj_get_own_props_le: "size (obj_get (own_props p) k) \<le> size p"
proof (cases "map_of (own_props p) k")
  case None
  then show ?thesis by (simp add: obj_get_def)
next
  case (Some v)
  then have "(k, v) \<in> set (own_props p)" by (rule map_of_SomeD)
  then have "(k, v) \<in> set (own_entries p) \<or> size v = 0"
    by (cases p) auto
  with Some show ?thesis by (auto simp: obj_get_def dest: size_own_entries_le)
qed

text \<open>
  \<^verbatim>\<open>entityAttributeToIOSchemaAttribute(attId, att)\<close>. Destructuring \<^verbatim>\<open>null\<close> or
  \<^verbatim>\<open>undefined\<close> throws, and so do \<^verbatim>\<open>Object.entries(properties)\<close> of a map attribute
  without properties and \<^verbatim>\<open>items.type\<close> of a list attribute without items. Only an
  object can carry a \<^verbatim>\<open>type\<close> of \<^verbatim>\<open>'map'\<close> or \<^verbatim>\<open>'list'\<close> (the own properties of an
  array or a string are its indices), so the nested formatting is under that case.
\<close>

function entityAttributeToIOSchemaAttribute ::
  "(string \<Rightarrow> string) \<Rightarrow> string \<Rightarrow> jsval \<Rightarrow> js_error + obj" where
  "entityAttributeToIOSchemaAttribute hr attId att =
     (if nullish att then Inl (TypeError ''Cannot destructure undefined or null'')
      else
        let formatted = format_base hr attId att in
        (case att of
           JObj a \<Rightarrow>
             (let type = obj_get (restMeta att) ''type'';
                  items = obj_get (restMeta att) ''items'';
                  properties = obj_get (restMeta att) ''properties''
              in if type = JStr ''map'' then
                   (if nullish properties
                    then Inl (TypeError ''Cannot convert undefined or null to object'')
                    else
                      (case sequence_err
                              (map (\<lambda>(k, v). entityAttributeToIOSchemaAttribute hr k v)
                                   (own_entries properties)) of
                         Inl e \<Rightarrow> Inl e
                       | Inr ps \<Rightarrow> Inr (obj_set formatted ''properties'' (JArr (map JObj ps)))))
                 else if type = JStr ''list'' then
                   (if nullish items
                    then Inl (TypeError ''Cannot read properties of undefined or null'')
                    else if obj_get (own_props items) ''type'' = JStr ''map'' then
                      (let ip = obj_get (own_props items) ''properties'' in
                       if nullish ip
                       then Inl (TypeError ''Cannot convert undefined or null to object'')
                       else
                         (case sequence_err
                                 (map (\<lambda>(k, v). entityAttributeToIOSchemaAttribute hr k v)
                                      (own_entries ip)) of
                            Inl e \<Rightarrow> Inl e
                          | Inr ps \<Rightarrow>
                              Inr (obj_set formatted ''items''
                                     (JObj (obj_assign (own_entries items)
                                        [(''properties'', JArr (map JObj ps))])))))
                    else Inr formatted)
                 else Inr formatted)
         | _ \<Rightarrow> Inr formatted))"
  by pat_completeness auto
termination
proof (relation "measure (\<lambda>(hr, attId, att). size att)", goal_cases)
  case 1
  show ?case by simp
next
  case (2 hr attId att x x7 xa xb xc xd xe y)
  then show ?case
    using size_own_entries_le [of xe y xc] size_obj_get_less [of x7 "''properties''"]
    by (auto simp: restMeta_def obj_get_obj_rest)
next
  case (3 hr attId att x x7 xa xb xc xaa xd xe y)
  then show ?case
    using size_own_entries_le [of xe y xaa] size_obj_get_own_props_le [of xb "''properties''"]
      size_obj_get_less [of x7 "''items''"]
    by (auto simp: restMeta_def obj_get_obj_rest)
qed

section \<open>The access-pattern resolver\<close>

text \<open>One composite attribute of an index:
  \<^verbatim>\<open>entityAttributeToIOSchemaAttribute(name, {...schema.attributes[name], required: true})\<close>.\<close>

definition index_attribute ::
  "(string \<Rightarrow> string) \<Rightarrow> entity_schema \<Rightarrow> string \<Rightarrow> js_error + obj" where
  "index_attribute hr schema attName =
     entityAttributeToIOSchemaAttribute hr attName
       (JObj (obj_assign (own_entries (obj_get (attributes schema) attName))
                [(''required'', JBool True)]))"

text \<open>The two inner loops: \<^verbatim>\<open>indexAttributes.set(name, ...)\<close> for each composite name.\<close>

fun index_attributes_loop ::
  "(string \<Rightarrow> string) \<Rightarrow> entity_schema \<Rightarrow> string list \<Rightarrow> (string \<times> obj) list
    \<Rightarrow> js_error + (string \<times> obj) list" where
  "index_attributes_loop hr schema [] m = Inr m"
| "index_attributes_loop hr schema (n # ns) m =
     (case index_attribute hr schema n of
        Inl e \<Rightarrow> Inl e
      | Inr f \<Rightarrow> index_attributes_loop hr schema ns (Map_set m n f))"

definition index_attributes ::
  "(string \<Rightarrow> string) \<Rightarrow> entity_schema \<Rightarrow> index_def \<Rightarrow> js_error + (string \<times> obj) list" where
  "index_attributes hr schema idx =
     (case index_attributes_loop hr schema (pk_composite idx) [] of
        Inl e \<Rightarrow> Inl e
      | Inr m \<Rightarrow>
          index_attributes_loop hr schema
            (case sk_composite idx of None \<Rightarrow> [] | Some sk \<Rightarrow> sk) m)"

text \<open>The outer loop over the indexes. A value of the map is optional because the
  \<^verbatim>\<open>primary\<close> alias of a schema without indexes is \<^verbatim>\<open>undefined\<close>.\<close>

type_synonym access_patterns = "(string \<times> (string \<times> obj) list option) list"

fun access_patterns_loop ::
  "(string \<Rightarrow> string) \<Rightarrow> entity_schema \<Rightarrow> (string \<times> index_def) list \<Rightarrow> access_patterns
    \<Rightarrow> js_error + access_patterns" where
  "access_patterns_loop hr schema [] aps = Inr aps"
| "access_patterns_loop hr schema ((indexName, idx) # rest) aps =
     (case index_attributes hr schema idx of
        Inl e \<Rightarrow> Inl e
      | Inr m \<Rightarrow> access_patterns_loop hr schema rest (Map_set aps indexName (Some m)))"

text \<open>\<^verbatim>\<open>accessPatterns.values().next().value\<close>\<close>

definition first_value :: "access_patterns \<Rightarrow> (string \<times> obj) list option" where
  "first_value aps = (case aps of [] \<Rightarrow> None | (k, v) # r \<Rightarrow> v)"

definition makeEntityAccessPatternsSchema ::
  "(string \<Rightarrow> string) \<Rightarrow> entity_schema \<Rightarrow> js_error + access_patterns" where
  "makeEntityAccessPatternsSchema hr schema =
     (case access_patterns_loop hr schema (indexes schema) [] of
        Inl e \<Rightarrow> Inl e
      | Inr aps \<Rightarrow>
          Inr (if Map_get aps ''primary'' = None
               then Map_set aps ''primary'' (first_value aps)
               else aps))"

section \<open>The IO-schema builder\<close>

record io_maps =
  out_detail :: "(string \<times> obj) list"
  out_list :: "(string \<times> obj) list"
  in_create :: "(string \<times> obj) list"
  in_update :: "(string \<times> obj) list"

text \<open>The loop of \<^verbatim>\<open>makeOpsDefaultIOSchema\<close> over \<^verbatim>\<open>schema.attributes\<close>: a hidden
  attribute is skipped, any other is entered in each map whose flag is truthy.\<close>

fun ops_loop ::
  "(string \<Rightarrow> string) \<Rightarrow> (string \<times> jsval) list \<Rightarrow> io_maps \<Rightarrow> js_error + io_maps" where
  "ops_loop hr [] m = Inr m"
| "ops_loop hr ((attName, att) # rest) m =
     (case entityAttributeToIOSchemaAttribute hr attName att of
        Inl e \<Rightarrow> Inl e
      | Inr formattedAtt \<Rightarrow>
          if truthy (obj_get formattedAtt ''hidden'') then ops_loop hr rest m
          else
            let m1 = (if truthy (obj_get formattedAtt ''isVisible'')
                      then m\<lparr>out_detail := Map_set (out_detail m) attName formattedAtt\<rparr>
                      else m);
                m2 = (if truthy (obj_get formattedAtt ''isListable'')
                      then m1\<lparr>out_list := Map_set (out_list m1) attName formattedAtt\<rparr>
                      else m1);
                m3 = (if truthy (obj_get formattedAtt ''isCreatable'')
                      then m2\<lparr>in_create := Map_set (in_create m2) attName formattedAtt\<rparr>
                      else m2);
                m4 = (if truthy (obj_get formattedAtt ''isEditable'')
                      then m3\<lparr>in_update := Map_set (in_update m3) attName formattedAtt\<rparr>
                      else m3)
            in ops_loop hr rest m4)"

record ops_io_schema =
  get_by :: "(string \<times> obj) list option"
  get_output :: "(string \<times> obj) list"
  delete_by :: "(string \<times> obj) list option"
  create_input :: "(string \<times> obj) list"
  create_output :: io_maps
  update_by :: "(string \<times> obj) list option"
  update_input :: "(string \<times> obj) list"
  update_output :: "(string \<times> obj) list"
  list_output :: "(string \<times> obj) list"

definition makeOpsDefaultIOSchema ::
  "(string \<Rightarrow> string) \<Rightarrow> entity_schema \<Rightarrow> js_error + ops_io_schema" where
  "makeOpsDefaultIOSchema hr schema =
     (case ops_loop hr (attributes schema)
             \<lparr>out_detail = [], out_list = [], in_create = [], in_update = []\<rparr> of
        Inl e \<Rightarrow> Inl e
      | Inr m \<Rightarrow>
          (case makeEntityAccessPatternsSchema hr schema of
             Inl e \<Rightarrow> Inl e
           | Inr accessPatterns \<Rightarrow>
               let defaultAccessPattern =
                     (case Map_get accessPatterns ''primary'' of None \<Rightarrow> None | Some v \<Rightarrow> v)
               in Inr \<lparr>get_by = defaultAccessPattern,
                        get_output = out_detail m,
                        delete_by = defaultAccessPattern,
                        create_input = in_create m,
                        create_output = m,
                        update_by = defaultAccessPattern,
                        update_input = in_update m,
                        update_output = out_detail m,
                        list_output = out_list m\<rparr>))"

text \<open>\<^verbatim>\<open>getOpsDefaultIOSchema\<close> caches the result of a pure function of the schema, so the
  helpers below call the builder directly.\<close>

definition getDefaultSerializationAttributeNames ::
  "(string \<Rightarrow> string) \<Rightarrow> entity_schema \<Rightarrow> js_error + string list" where
  "getDefaultSerializationAttributeNames hr schema =
     (case makeOpsDefaultIOSchema hr schema of
        Inl e \<Rightarrow> Inl e
      | Inr ops \<Rightarrow> Inr (Map_keys (get_output ops)))"

definition getListingAttributeNames ::
  "(string \<Rightarrow> string) \<Rightarrow> entity_schema \<Rightarrow> js_error + string list" where
  "getListingAttributeNames hr schema =
     (case makeOpsDefaultIOSchema hr schema of
        Inl e \<Rightarrow> Inl e
      | Inr ops \<Rightarrow> Inr (Map_keys (list_output ops)))"

text \<open>\<^verbatim>\<open>getSearchableAttributeNames\<close>: reading \<^verbatim>\<open>att.hidden\<close> throws on an attribute
  that is \<^verbatim>\<open>null\<close> or \<^verbatim>\<open>undefined\<close>.\<close>

fun searchable_loop :: "(string \<times> jsval) list \<Rightarrow> js_error + string list" where
  "searchable_loop [] = Inr []"
| "searchable_loop ((attName, att) # rest) =
     (if nullish att then Inl (TypeError ''Cannot read properties of undefined or null'')
      else
        (case searchable_loop rest of
           Inl e \<Rightarrow> Inl e
         | Inr names \<Rightarrow>
             Inr (if \<not> truthy (obj_get (own_props att) ''hidden'')
                     \<and> \<not> truthy (obj_get (own_props att) ''isIdentifier'')
                     \<and> obj_get (own_props att) ''type'' = JStr ''string''
                     \<and> truthy (format_flag att ''isSearchable'')
                  then attName # names else names)))"

definition getSearchableAttributeNames :: "entity_schema \<Rightarrow> js_error + string list" where
  "getSearchableAttributeNames schema = searchable_loop (attributes schema)"

fun primary_id_loop :: "(string \<times> jsval) list \<Rightarrow> js_error + string option" where
  "primary_id_loop [] = Inr None"
| "primary_id_loop ((attName, att) # rest) =
     (if nullish att then Inl (TypeError ''Cannot read properties of undefined or null'')
      else if truthy (obj_get (own_props att) ''isIdentifier'') then Inr (Some attName)
      else primary_id_loop rest)"

definition getEntityPrimaryIdPropertyName :: "entity_schema \<Rightarrow> js_error + string option" where
  "getEntityPrimaryIdPropertyName schema = primary_id_loop (attributes schema)"

section \<open>Identifier extraction\<close>

text \<open>\<^verbatim>\<open>v == true\<close>. Exact on \<^verbatim>\<open>undefined\<close>, \<^verbatim>\<open>null\<close>, booleans and numbers; a string
  equals \<^verbatim>\<open>true\<close> when it reads as the number one, of which only \<^verbatim>\<open>"1"\<close> is modelled, and
  objects are taken as different from \<^verbatim>\<open>true\<close>. The only value it is applied to below is
  the \<^verbatim>\<open>required\<close> property of a formatted attribute.\<close>

fun loose_equals_true :: "jsval \<Rightarrow> bool" where
  "loose_equals_true (JBool b) = b"
| "loose_equals_true (JNum n) = (n = 1)"
| "loose_equals_true (JStr s) = (s = ''1'')"
| "loose_equals_true v = False"

text \<open>The members of \<^verbatim>\<open>identifierAttributes\<close>. It is a \<^verbatim>\<open>Set\<close> of freshly built objects,
  which are all different from each other, so nothing is ever merged: it is the list of
  what was added.\<close>

fun attributes_of_pattern :: "(string \<times> obj) list \<Rightarrow> (jsval \<times> bool) list" where
  "attributes_of_pattern [] = []"
| "attributes_of_pattern ((k, att) # rest) =
     (obj_get att ''id'', loose_equals_true (obj_get att ''required''))
       # attributes_of_pattern rest"

fun identifier_attributes ::
  "access_patterns \<Rightarrow> string option \<Rightarrow> js_error + (jsval \<times> bool) list" where
  "identifier_attributes [] forAccessPattern = Inr []"
| "identifier_attributes ((accessPatternName, accessPatternAttributes) # rest) forAccessPattern =
     (if forAccessPattern = None \<or> forAccessPattern = Some []
         \<or> Some accessPatternName = forAccessPattern
      then
        (case accessPatternAttributes of
           None \<Rightarrow> Inl (TypeError ''undefined is not iterable'')
         | Some m \<Rightarrow>
             (case identifier_attributes rest forAccessPattern of
                Inl e \<Rightarrow> Inl e
              | Inr others \<Rightarrow> Inr (attributes_of_pattern m @ others)))
      else identifier_attributes rest forAccessPattern)"

text \<open>The body of \<^verbatim>\<open>inputs.map\<close> for one input: the identifiers collected so far and the
  names warned about.\<close>

fun extract_one ::
  "string option \<Rightarrow> jsval \<Rightarrow> (jsval \<times> bool) list \<Rightarrow> obj \<times> string list
    \<Rightarrow> js_error + obj \<times> string list" where
  "extract_one primaryAttName input [] acc = Inr acc"
| "extract_one primaryAttName input ((attName, required) # rest) (identifiers, warned) =
     (case hasOwnProperty input (js_to_string attName) of
        Inl e \<Rightarrow> Inl e
      | Inr present \<Rightarrow>
          if present then
            extract_one primaryAttName input rest
              (obj_set identifiers (js_to_string attName)
                 (obj_get (own_props input) (js_to_string attName)), warned)
          else if (case primaryAttName of None \<Rightarrow> False | Some p \<Rightarrow> attName = JStr p)
                  \<and> obj_has (own_props input) ''id'' then
            extract_one primaryAttName input rest
              (obj_set identifiers (js_to_string attName)
                 (obj_get (own_props input) ''id''), warned)
          else if required then
            extract_one primaryAttName input rest
              (identifiers, warned @ [js_to_string attName])
          else extract_one primaryAttName input rest (identifiers, warned))"

fun extract_batch ::
  "string option \<Rightarrow> (jsval \<times> bool) list \<Rightarrow> jsval list \<Rightarrow> string list
    \<Rightarrow> string list \<times> (js_error + obj list)" where
  "extract_batch primaryAttName idAtts [] warned = (warned, Inr [])"
| "extract_batch primaryAttName idAtts (input # rest) warned =
     (case extract_one primaryAttName input idAtts ([], warned) of
        Inl e \<Rightarrow> (warned, Inl e)
      | Inr (identifiers, warned1) \<Rightarrow>
          (case extract_batch primaryAttName idAtts rest warned1 of
             (warned2, Inl e) \<Rightarrow> (warned2, Inl e)
           | (warned2, Inr others) \<Rightarrow> (warned2, Inr (identifiers # others))))"

text \<open>
  \<^verbatim>\<open>extractEntityIdentifiers(input, context)\<close>: the warnings logged and the outcome.
  \<^verbatim>\<open>typeof input\<close> is \<^verbatim>\<open>'object'\<close> for an object, an array and \<^verbatim>\<open>null\<close>.
\<close>

definition extractEntityIdentifiers ::
  "(string \<Rightarrow> string) \<Rightarrow> entity_schema \<Rightarrow> jsval \<Rightarrow> string option
    \<Rightarrow> string list \<times> (js_error + jsval)" where
  "extractEntityIdentifiers hr schema input forAccessPattern =
     (if \<not> truthy input \<or> \<not> (case input of JArr xs \<Rightarrow> True | JObj kvs \<Rightarrow> True | _ \<Rightarrow> False)
      then ([], Inl (Error ''Input is required and must be an object''))
      else
        let isBatchInput = (case input of JArr xs \<Rightarrow> True | _ \<Rightarrow> False);
            inputs = (case input of JArr xs \<Rightarrow> xs | _ \<Rightarrow> [input])
        in
        (case makeEntityAccessPatternsSchema hr schema of
           Inl e \<Rightarrow> ([], Inl e)
         | Inr accessPatterns \<Rightarrow>
             (case identifier_attributes accessPatterns forAccessPattern of
                Inl e \<Rightarrow> ([], Inl e)
              | Inr identifierAttributes \<Rightarrow>
                  (case getEntityPrimaryIdPropertyName schema of
                     Inl e \<Rightarrow> ([], Inl e)
                   | Inr primaryAttName \<Rightarrow>
                       (case extract_batch primaryAttName identifierAttributes inputs [] of
                          (warned, Inl e) \<Rightarrow> (warned, Inl e)
                        | (warned, Inr identifiersBatch) \<Rightarrow>
                            (warned,
                             Inr (if isBatchInput then JArr (map JObj identifiersBatch)
                                  else (case identifiersBatch of
                                          [] \<Rightarrow> JUndefined
                                        | i # r \<Rightarrow> JObj i))))))))"

section \<open>Relation hydration\<close>

subsection \<open>The canonical serialization\<close>

text \<open>
  \<^verbatim>\<open>JSON.stringify\<close> prints a value as a JSON text and \<^verbatim>\<open>JSON.parse\<close> reads one back.
  A text is represented by the JSON document it denotes: printing is deterministic and
  two documents print differently, so comparing the texts (which is what the \<^verbatim>\<open>Set\<close>
  of serializations does) is comparing the documents. \<^verbatim>\<open>undefined\<close> has no text; inside
  an array it prints as \<^verbatim>\<open>null\<close>, and a property holding it is left out.
\<close>

datatype json =
    JsonNull
  | JsonBool bool
  | JsonNum int
  | JsonStr string
  | JsonArr "json list"
  | JsonObj "(string \<times> json) list"

primrec JSON_stringify :: "jsval \<Rightarrow> json option" where
  "JSON_stringify JUndefined = None"
| "JSON_stringify JNull = Some JsonNull"
| "JSON_stringify (JBool b) = Some (JsonBool b)"
| "JSON_stringify (JNum n) = Some (JsonNum n)"
| "JSON_stringify (JStr s) = Some (JsonStr s)"
| "JSON_stringify (JArr xs) =
     Some (JsonArr (map (\<lambda>r. case r of None \<Rightarrow> JsonNull | Some j \<Rightarrow> j)
                        (map JSON_stringify xs)))"
| "JSON_stringify (JObj kvs) =
     Some (JsonObj (List.map_filter (\<lambda>(k, r). map_option (Pair k) r)
                      (map (map_prod id JSON_stringify) kvs)))"

primrec JSON_parse :: "json \<Rightarrow> jsval" where
  "JSON_parse JsonNull = JNull"
| "JSON_parse (JsonBool b) = JBool b"
| "JSON_parse (JsonNum n) = JNum n"
| "JSON_parse (JsonStr s) = JStr s"
| "JSON_parse (JsonArr xs) = JArr (map JSON_parse xs)"
| "JSON_parse (JsonObj kvs) = JObj (map (map_prod id JSON_parse) kvs)"

text \<open>\<^verbatim>\<open>JSON.parse(undefined)\<close> throws.\<close>

definition JSON_parse_text :: "json option \<Rightarrow> js_error + jsval" where
  "JSON_parse_text t =
     (case t of None \<Rightarrow> Inl (Error ''SyntaxError: not valid JSON'') | Some j \<Rightarrow> Inr (JSON_parse j))"

text \<open>\<^verbatim>\<open>Array.from(new Set(batch.map(i => JSON.stringify(i)))).map(i => JSON.parse(i))\<close>\<close>

definition uniqueRelationIdentifiersBatch :: "obj list \<Rightarrow> js_error + jsval list" where
  "uniqueRelationIdentifiersBatch relationIdentifiersBatch =
     sequence_err
       (map JSON_parse_text
          (new_Set (map (\<lambda>i. JSON_stringify (JObj i)) relationIdentifiersBatch)))"

subsection \<open>The collaborators\<close>

text \<open>
  A related entity service as hydration uses it: the name of its primary identifier
  attribute and its \<^verbatim>\<open>get\<close>, called with the identifier batch and the selections, which
  resolves to the fetched records or rejects. The registry of services and the helpers
  \<^verbatim>\<open>isObject\<close> and \<^verbatim>\<open>getValueByPath\<close> of the utilities module are parameters.
\<close>

record related_service =
  primaryIdPropertyName :: "string option"
  service_get :: "jsval list \<Rightarrow> jsval \<Rightarrow> js_error + jsval"

record hydrate_env =
  getEntityServiceByEntityName :: "jsval \<Rightarrow> related_service option"
  isObject :: "jsval \<Rightarrow> bool"
  getValueByPath :: "jsval \<Rightarrow> jsval \<Rightarrow> jsval"
  fetch_settles :: "string \<Rightarrow> nat"

text \<open>One call of a related service's \<^verbatim>\<open>get\<close>, as the log keeps it: the relation
  attribute it was made for, the entity name and the two arguments.\<close>

record get_call =
  call_relation :: string
  call_entity :: jsval
  call_identifiers :: "jsval list"
  call_selections :: jsval

record hydrate_result =
  fetch_calls :: "get_call list"
  logged_warnings :: "string list"
  outcome :: "js_error + obj list \<times> obj"

subsection \<open>Collecting the identifiers\<close>

text \<open>The \<^verbatim>\<open>reduce\<close> over the identifier mappings for one raw relation value.\<close>

fun identifiers_reduce :: "hydrate_env \<Rightarrow> jsval \<Rightarrow> jsval list \<Rightarrow> obj \<Rightarrow> js_error + obj" where
  "identifiers_reduce E identifiersData [] acc = Inr acc"
| "identifiers_reduce E identifiersData (identifierMapping # rest) acc =
     (if nullish identifierMapping
      then Inl (TypeError ''Cannot destructure undefined or null'')
      else
        let source = obj_get (own_props identifierMapping) ''source'';
            target = obj_get (own_props identifierMapping) ''target'';
            identifierVal =
              (if isObject E identifiersData \<and> truthy identifiersData
               then getValueByPath E identifiersData source
               else identifiersData)
        in identifiers_reduce E identifiersData rest
             (if truthy identifierVal then obj_set acc (js_to_string target) identifierVal
              else acc))"

text \<open>\<^verbatim>\<open>identifiersDataBatch.map(...).filter(i => !!i)\<close>: a falsy raw value gives
  \<^verbatim>\<open>undefined\<close>, which the filter drops; an identifier object is always kept.\<close>

fun identifiers_batch :: "hydrate_env \<Rightarrow> jsval list \<Rightarrow> jsval list \<Rightarrow> js_error + obj list" where
  "identifiers_batch E identifierMappings [] = Inr []"
| "identifiers_batch E identifierMappings (identifiersData # rest) =
     (if \<not> truthy identifiersData then identifiers_batch E identifierMappings rest
      else
        (case identifiers_reduce E identifiersData identifierMappings [] of
           Inl e \<Rightarrow> Inl e
         | Inr identifiers \<Rightarrow>
             (case identifiers_batch E identifierMappings rest of
                Inl e \<Rightarrow> Inl e
              | Inr others \<Rightarrow> Inr (identifiers # others))))"

definition isToManyRelation :: "obj \<Rightarrow> string \<Rightarrow> bool" where
  "isToManyRelation entityData relatedAttributeName =
     (case obj_get entityData relatedAttributeName of JArr xs \<Rightarrow> True | _ \<Rightarrow> False)"

definition identifiersDataBatch :: "obj \<Rightarrow> string \<Rightarrow> jsval list" where
  "identifiersDataBatch entityData relatedAttributeName =
     (case obj_get entityData relatedAttributeName of JArr xs \<Rightarrow> xs | v \<Rightarrow> [v])"

text \<open>The body of the \<^verbatim>\<open>flatMap\<close> for every root record: the identifier batch of each,
  which is also what \<^verbatim>\<open>identifiersToSourceEntityDictionary\<close> keeps for it.\<close>

fun collect_identifiers ::
  "hydrate_env \<Rightarrow> jsval list \<Rightarrow> string \<Rightarrow> obj list \<Rightarrow> js_error + obj list list" where
  "collect_identifiers E identifierMappings relatedAttributeName [] = Inr []"
| "collect_identifiers E identifierMappings relatedAttributeName (entityData # rest) =
     (case identifiers_batch E identifierMappings
             (identifiersDataBatch entityData relatedAttributeName) of
        Inl e \<Rightarrow> Inl e
      | Inr identifiersBatch \<Rightarrow>
          (case collect_identifiers E identifierMappings relatedAttributeName rest of
             Inl e \<Rightarrow> Inl e
           | Inr others \<Rightarrow> Inr (identifiersBatch # others)))"

subsection \<open>Folding the identifier attributes into the selections\<close>

fun fold_identifier_keys :: "hydrate_env \<Rightarrow> string list \<Rightarrow> jsval \<Rightarrow> js_error + jsval" where
  "fold_identifier_keys E [] attrs = Inr attrs"
| "fold_identifier_keys E (key # keys) attrs =
     (case attrs of
        JArr xs \<Rightarrow>
          if JStr key \<notin> set xs then fold_identifier_keys E keys (JArr (xs @ [JStr key]))
          else if isObject E attrs \<and> \<not> obj_has (own_props attrs) key
          then fold_identifier_keys E keys
                 (JObj (obj_assign (own_entries attrs) [(key, JBool True)]))
          else fold_identifier_keys E keys attrs
      | _ \<Rightarrow>
          if isObject E attrs then
            (case hasOwnProperty attrs key of
               Inl e \<Rightarrow> Inl e
             | Inr present \<Rightarrow>
                 if present then fold_identifier_keys E keys attrs
                 else fold_identifier_keys E keys
                        (JObj (obj_assign (own_entries attrs) [(key, JBool True)])))
          else fold_identifier_keys E keys attrs)"

subsection \<open>Merging the fetched records\<close>

text \<open>\<^verbatim>\<open>Object.entries(identifiers).every(...)\<close> against one fetched record.\<close>

fun record_matches :: "obj \<Rightarrow> jsval \<Rightarrow> js_error + bool" where
  "record_matches [] relatedEntityData = Inr True"
| "record_matches ((target, v) # rest) relatedEntityData =
     (case hasOwnProperty relatedEntityData target of
        Inl e \<Rightarrow> Inl e
      | Inr present \<Rightarrow>
          if present \<and> strict_equals (obj_get (own_props relatedEntityData) target) v
          then record_matches rest relatedEntityData
          else Inr False)"

fun find_related :: "obj \<Rightarrow> jsval list \<Rightarrow> js_error + jsval" where
  "find_related identifiers [] = Inr JUndefined"
| "find_related identifiers (relatedEntityData # rest) =
     (case record_matches identifiers relatedEntityData of
        Inl e \<Rightarrow> Inl e
      | Inr found \<Rightarrow> if found then Inr relatedEntityData else find_related identifiers rest)"

text \<open>\<^verbatim>\<open>relatedEntities?.find(...)\<close>: nothing is found in \<^verbatim>\<open>undefined\<close> or \<^verbatim>\<open>null\<close>, and a
  value that is not an array has no \<^verbatim>\<open>find\<close> to call.\<close>

definition find_in_fetched :: "jsval \<Rightarrow> obj \<Rightarrow> js_error + jsval" where
  "find_in_fetched relatedEntities identifiers =
     (if nullish relatedEntities then Inr JUndefined
      else (case relatedEntities of
              JArr rs \<Rightarrow> find_related identifiers rs
            | _ \<Rightarrow> Inl (TypeError ''relatedEntities.find is not a function'')))"

definition merge_root :: "jsval \<Rightarrow> string \<Rightarrow> obj \<Rightarrow> obj list \<Rightarrow> js_error + obj" where
  "merge_root relatedEntities relatedAttributeName sourceEntityData identifiersBatch =
     (case sequence_err (map (find_in_fetched relatedEntities) identifiersBatch) of
        Inl e \<Rightarrow> Inl e
      | Inr relatedRecords \<Rightarrow>
          Inr (obj_set sourceEntityData relatedAttributeName
                 (if \<not> isToManyRelation sourceEntityData relatedAttributeName
                     \<and> length relatedRecords > 0
                  then hd relatedRecords
                  else JArr relatedRecords)))"

fun merge_roots :: "jsval \<Rightarrow> string \<Rightarrow> obj list \<Rightarrow> obj list list \<Rightarrow> js_error + obj list" where
  "merge_roots relatedEntities relatedAttributeName (r # rs) (b # bs) =
     (case merge_root relatedEntities relatedAttributeName r b of
        Inl e \<Rightarrow> Inl e
      | Inr r' \<Rightarrow>
          (case merge_roots relatedEntities relatedAttributeName rs bs of
             Inl e \<Rightarrow> Inl e
           | Inr rs' \<Rightarrow> Inr (r' # rs')))"
| "merge_roots relatedEntities relatedAttributeName rs bs = Inr []"

subsection \<open>Hydrating one relation\<close>

text \<open>
  \<^verbatim>\<open>hydrateSingleRelation(rootEntityRecords, relatedAttributeName, options)\<close>. The root
  records and \<^verbatim>\<open>options\<close> are mutated in place by the source; the model returns them.
  The dictionary from root record to identifier batch is keyed by the record object, and
  a record listed twice is given the same value twice here, which is what assigning to
  it once does.
\<close>

text \<open>The identifier mappings of a relation: a copy of its metadata is taken, the
  mapping defaults to the related entity's primary identifier on both sides, and a single
  mapping is wrapped in a list.\<close>

definition identifierMappings :: "related_service \<Rightarrow> jsval \<Rightarrow> jsval list" where
  "identifierMappings relatedEntityService relationAttributeMetadata =
     (let relationMetadata = own_entries (js_get_opt relationAttributeMetadata ''relation'');
          relationPrimaryIdentifierName =
            (case primaryIdPropertyName relatedEntityService of
               None \<Rightarrow> JUndefined | Some p \<Rightarrow> JStr p);
          identifiers = js_or (obj_get relationMetadata ''identifiers'')
                          (JObj [(''source'', relationPrimaryIdentifierName),
                                 (''target'', relationPrimaryIdentifierName)])
      in (case identifiers of JArr ms \<Rightarrow> ms | _ \<Rightarrow> [identifiers]))"

definition hydrateSingleRelation ::
  "hydrate_env \<Rightarrow> entity_schema \<Rightarrow> obj list \<Rightarrow> string \<Rightarrow> obj \<Rightarrow> hydrate_result" where
  "hydrateSingleRelation E schema rootEntityRecords relatedAttributeName options =
     (let relatedEntityName = obj_get options ''entityName'' in
      case getEntityServiceByEntityName E relatedEntityName of
        None \<Rightarrow>
          \<lparr>fetch_calls = [], logged_warnings = [],
           outcome = Inl (Error ''No service found in the defaultMetaContainer for relationship'')\<rparr>
      | Some relatedEntityService \<Rightarrow>
          let relationAttributeMetadata = obj_get (attributes schema) relatedAttributeName in
          if \<not> truthy relationAttributeMetadata
             \<or> \<not> truthy (js_get_opt relationAttributeMetadata ''relation'')
          then
            \<lparr>fetch_calls = [],
             logged_warnings = [''No metadata found for relationship: '' @ relatedAttributeName],
             outcome = Inr (rootEntityRecords, options)\<rparr>
          else
            case collect_identifiers E
                   (identifierMappings relatedEntityService relationAttributeMetadata)
                   relatedAttributeName rootEntityRecords of
              Inl e \<Rightarrow> \<lparr>fetch_calls = [], logged_warnings = [], outcome = Inl e\<rparr>
            | Inr dictionary \<Rightarrow>
                (case uniqueRelationIdentifiersBatch (concat dictionary) of
                   Inl e \<Rightarrow> \<lparr>fetch_calls = [], logged_warnings = [], outcome = Inl e\<rparr>
                 | Inr uniqueBatch \<Rightarrow>
                     (case uniqueBatch of
                        [] \<Rightarrow>
                          \<lparr>fetch_calls = [], logged_warnings = [],
                           outcome = Inl (TypeError ''Cannot convert undefined or null to object'')\<rparr>
                      | first # others \<Rightarrow>
                          (case fold_identifier_keys E (map fst (own_entries first))
                                  (obj_get options ''attributes'') of
                             Inl e \<Rightarrow> \<lparr>fetch_calls = [], logged_warnings = [], outcome = Inl e\<rparr>
                           | Inr selected \<Rightarrow>
                               let options' =
                                     (if selected = obj_get options ''attributes'' then options
                                      else obj_set options ''attributes'' selected);
                                   call = \<lparr>call_relation = relatedAttributeName,
                                           call_entity = relatedEntityName,
                                           call_identifiers = uniqueBatch,
                                           call_selections = selected\<rparr>
                               in
                               (case service_get relatedEntityService uniqueBatch selected of
                                  Inl e \<Rightarrow>
                                    \<lparr>fetch_calls = [call], logged_warnings = [], outcome = Inl e\<rparr>
                                | Inr relatedEntities \<Rightarrow>
                                    (case merge_roots relatedEntities relatedAttributeName
                                            rootEntityRecords dictionary of
                                       Inl e \<Rightarrow>
                                         \<lparr>fetch_calls = [call], logged_warnings = [],
                                          outcome = Inl e\<rparr>
                                     | Inr hydrated \<Rightarrow>
                                         \<lparr>fetch_calls = [call], logged_warnings = [],
                                          outcome = Inr (hydrated, options')\<rparr>))))))"

subsection \<open>Hydrating every selected relation\<close>

text \<open>
  \<^verbatim>\<open>hydrateRecords\<close> starts \<^verbatim>\<open>hydrateSingleRelation\<close> once for each listed relation
  under \<^verbatim>\<open>Promise.all\<close>. The relations come from the entries of one selection object, so
  they name different attributes and touch different properties of the root records; the
  model runs them one after the other. A relation that fails rejects the whole call but
  does not stop the others: their fetches are still made.

  \<^verbatim>\<open>Promise.all\<close> rejects with the rejection that comes first in time. A relation that
  throws before its fetch rejects in the synchronous part of the call, before any fetch
  has settled (time 0). A relation that fails at or after its fetch rejects once that
  fetch has settled, and when a fetch settles is up to the related service: the
  environment gives it, as \<^verbatim>\<open>fetch_settles\<close> of the relation attribute. Of two rejections
  at the same time the one of the relation listed first is first. A rejection is kept
  with its time.
\<close>

definition rejection_time :: "hydrate_env \<Rightarrow> string \<Rightarrow> hydrate_result \<Rightarrow> nat" where
  "rejection_time E relatedAttributeName one =
     (if fetch_calls one = [] then 0 else Suc (fetch_settles E relatedAttributeName))"

record hydrate_records_result =
  all_fetch_calls :: "get_call list"
  all_logged_warnings :: "string list"
  all_outcome :: "nat \<times> js_error + obj list \<times> (string \<times> obj) list"

fun hydrateRecords ::
  "hydrate_env \<Rightarrow> entity_schema \<Rightarrow> (string \<times> obj) list \<Rightarrow> obj list \<Rightarrow> hydrate_records_result" where
  "hydrateRecords E schema [] rootEntityRecords =
     \<lparr>all_fetch_calls = [], all_logged_warnings = [],
      all_outcome = Inr (rootEntityRecords, [])\<rparr>"
| "hydrateRecords E schema ((relatedAttributeName, options) # rest) rootEntityRecords =
     (let one = hydrateSingleRelation E schema rootEntityRecords relatedAttributeName options;
          records1 = (case outcome one of Inl e \<Rightarrow> rootEntityRecords | Inr (rs, os) \<Rightarrow> rs);
          options1 = (case outcome one of Inl e \<Rightarrow> options | Inr (rs, os) \<Rightarrow> os);
          others = hydrateRecords E schema rest records1
      in \<lparr>all_fetch_calls = fetch_calls one @ all_fetch_calls others,
          all_logged_warnings = logged_warnings one @ all_logged_warnings others,
          all_outcome =
            (case outcome one of
               Inl e \<Rightarrow>
                 (let t = rejection_time E relatedAttributeName one in
                  case all_outcome others of
                    Inl (t', e') \<Rightarrow> if t \<le> t' then Inl (t, e) else Inl (t', e')
                  | Inr r \<Rightarrow> Inl (t, e))
             | Inr p \<Rightarrow>
                 (case all_outcome others of
                    Inl rejection \<Rightarrow> Inl rejection
                  | Inr (records2, relations2) \<Rightarrow>
                      Inr (records2, (relatedAttributeName, options1) # relations2)))\<rparr>)"

section \<open>The entity service: list and query\<close>

subsection \<open>Strings\<close>

text \<open>Splitting at every delimiter character, empty pieces kept, as
  \<^verbatim>\<open>s.split(',')\<close> does.\<close>

fun split_at :: "(char \<Rightarrow> bool) \<Rightarrow> string \<Rightarrow> string list" where
  "split_at d [] = [[]]"
| "split_at d (c # cs) =
     (if d c then [] # split_at d cs
      else (case split_at d cs of [] \<Rightarrow> [[c]] | w # ws \<Rightarrow> (c # w) # ws))"

text \<open>The characters that \<^verbatim>\<open>String.prototype.trim\<close> strips: the blanks and line
  terminators. A character of a string here is a code unit below \<^verbatim>\<open>U+0100\<close>; of the
  characters that \<^verbatim>\<open>trim\<close> strips these are the tab, the line feed, the vertical tab, the
  form feed, the carriage return, the space and the no-break space (the others start at
  \<^verbatim>\<open>U+1680\<close>).\<close>

definition is_space :: "char \<Rightarrow> bool" where
  "is_space c =
     (c \<in> set [CHR '' '', CHR 0x09, CHR 0x0A, CHR 0x0B, CHR 0x0C, CHR 0x0D, CHR 0xA0])"

definition trim :: "string \<Rightarrow> string" where
  "trim s = rev (dropWhile is_space (rev (dropWhile is_space s)))"

text \<open>The delimiters of \<^verbatim>\<open>delimitersRegex = /(?:&| |,|\+)+/\<close>.\<close>

definition is_delimiter :: "char \<Rightarrow> bool" where
  "is_delimiter c = (c \<in> set [CHR ''&'', CHR '' '', CHR '','', CHR ''+''])"

text \<open>\<^verbatim>\<open>search.trim().split(delimitersRegex).filter(s => !!s)\<close>. The expression splits at
  every run of delimiters; splitting at every delimiter gives the same pieces and more
  empty ones, which the filter drops.\<close>

definition search_terms :: "string \<Rightarrow> string list" where
  "search_terms s = filter (\<lambda>t. t \<noteq> []) (split_at is_delimiter (trim s))"

text \<open>\<^verbatim>\<open>searchAttributes.split(',').filter(s => !!s)\<close>\<close>

definition split_search_attributes :: "string \<Rightarrow> string list" where
  "split_search_attributes s = filter (\<lambda>t. t \<noteq> []) (split_at (\<lambda>c. c = CHR '','') s)"

subsection \<open>Queries\<close>

text \<open>
  A query as its type gives it: the selection is a list of attribute paths or a selection
  object, \<^verbatim>\<open>search\<close> and \<^verbatim>\<open>searchAttributes\<close> are a string or a list of strings, and each
  may be absent. The filters and every other field are carried along.
\<close>

datatype text_or_items = Text string | Items "string list"

datatype selections = Paths "string list" | Tree obj

record entity_query =
  q_attributes :: "selections option"
  q_search :: "text_or_items option"
  q_searchAttributes :: "text_or_items option"
  q_filters :: jsval
  q_rest :: obj

record entities =
  data :: "obj list"
  rest_of_page :: obj

text \<open>
  The collaborators of the service that live in other modules: the selection parser, the
  search filter composer, the persistence operations, the helper \<^verbatim>\<open>pickKeys\<close>, the
  name formatter and what hydration needs.
\<close>

record service_env =
  parseEntityAttributePaths :: "string list \<Rightarrow> obj"
  inferRelationshipsForEntitySelections :: "entity_schema \<Rightarrow> obj \<Rightarrow> obj"
  makeFilterGroupForSearchKeywords :: "string list \<Rightarrow> text_or_items \<Rightarrow> jsval"
  addFilterGroupToEntityFilterCriteria :: "jsval \<Rightarrow> jsval \<Rightarrow> jsval"
  listEntity :: "entity_query \<Rightarrow> js_error + entities"
  queryEntity :: "entity_query \<Rightarrow> js_error + entities"
  pickKeys :: "obj \<Rightarrow> string list \<Rightarrow> obj"
  toHumanReadableName :: "string \<Rightarrow> string"
  hydration :: hydrate_env

text \<open>Truthiness of the two shapes: an empty string is falsy, an array never is.\<close>

fun truthy_text_or_items :: "text_or_items option \<Rightarrow> bool" where
  "truthy_text_or_items None = False"
| "truthy_text_or_items (Some (Text s)) = (s \<noteq> [])"
| "truthy_text_or_items (Some (Items xs)) = True"

text \<open>Modelled from the spec: \<^verbatim>\<open>isEmpty\<close> of the utilities module is not among the
  sources. The spec has the searchable attributes default "when the caller supplies
  none" or, for the claim on list, "an empty set": it holds of what has no elements.\<close>

fun isEmpty :: "text_or_items \<Rightarrow> bool" where
  "isEmpty (Text s) = (s = [])"
| "isEmpty (Items xs) = (xs = [])"

text \<open>\<^verbatim>\<open>serializeRecord\<close> and \<^verbatim>\<open>serializeRecords\<close>\<close>

definition serializeRecord :: "service_env \<Rightarrow> obj \<Rightarrow> selections \<Rightarrow> obj" where
  "serializeRecord S record attrs =
     (let keys = (case attrs of
                    Paths ps \<Rightarrow> map fst (parseEntityAttributePaths S ps)
                  | Tree t \<Rightarrow> map fst t)
      in pickKeys S record keys)"

definition serializeRecords :: "service_env \<Rightarrow> obj list \<Rightarrow> selections \<Rightarrow> obj list" where
  "serializeRecords S records attrs = map (\<lambda>record. serializeRecord S record attrs) records"

text \<open>The selected attributes that carry relation options: the entries of the selection
  whose value \<^verbatim>\<open>isObject\<close> accepts. A value of a selection is a boolean or an object.\<close>

fun relationalAttributes :: "service_env \<Rightarrow> obj \<Rightarrow> (string \<times> obj) list" where
  "relationalAttributes S [] = []"
| "relationalAttributes S ((attributeName, v) # rest) =
     (case v of
        JObj options \<Rightarrow>
          if isObject (hydration S) v then (attributeName, options) # relationalAttributes S rest
          else relationalAttributes S rest
      | _ \<Rightarrow> relationalAttributes S rest)"

text \<open>What the selection object holds once hydration has mutated the options in it.\<close>

definition with_options :: "obj \<Rightarrow> (string \<times> obj) list \<Rightarrow> obj" where
  "with_options t relations = foldl (\<lambda>acc (k, options). obj_set acc k (JObj options)) t relations"

subsection \<open>list\<close>

text \<open>The search part shared by the text of \<^verbatim>\<open>list\<close> and \<^verbatim>\<open>query\<close>: the search string
  becomes its terms.\<close>

definition split_search :: "text_or_items option \<Rightarrow> text_or_items option" where
  "split_search s =
     (case s of Some (Text t) \<Rightarrow> (if t \<noteq> [] then Some (Items (search_terms t)) else s) | _ \<Rightarrow> s)"

definition search_list :: "text_or_items option \<Rightarrow> string list" where
  "search_list s = (case s of Some (Items xs) \<Rightarrow> xs | _ \<Rightarrow> [])"

text \<open>\<^verbatim>\<open>list\<close> up to the call of \<^verbatim>\<open>listEntity\<close>: the query as the persistence operation
  receives it.\<close>

definition list_query :: "service_env \<Rightarrow> entity_schema \<Rightarrow> entity_query \<Rightarrow> js_error + entity_query" where
  "list_query S schema query =
     (case (case q_attributes query of
              None \<Rightarrow> map_sum id (\<lambda>names. Paths names)
                        (getListingAttributeNames (toHumanReadableName S) schema)
            | Some a \<Rightarrow> Inr a) of
        Inl e \<Rightarrow> Inl e
      | Inr attrs \<Rightarrow>
          let attrs1 = (case attrs of
                          Paths ps \<Rightarrow>
                            Tree (inferRelationshipsForEntitySelections S schema
                                    (parseEntityAttributePaths S ps))
                        | Tree t \<Rightarrow> Tree t);
              query1 = query\<lparr>q_attributes := Some attrs1\<rparr>
          in
          if truthy_text_or_items (q_search query1) then
            let query2 = query1\<lparr>q_search := split_search (q_search query1)\<rparr> in
            if length (search_list (q_search query2)) > 0 then
              let query3 =
                    (case q_searchAttributes query2 of
                       Some (Text t) \<Rightarrow>
                         query2\<lparr>q_searchAttributes := Some (Items (split_search_attributes t))\<rparr>
                     | _ \<Rightarrow> query2)
              in
              (case (if \<not> truthy_text_or_items (q_searchAttributes query3)
                        \<or> (case q_searchAttributes query3 of
                              None \<Rightarrow> False | Some sa \<Rightarrow> isEmpty sa)
                     then map_sum id (\<lambda>names. Some (Items names))
                            (getSearchableAttributeNames schema)
                     else Inr (q_searchAttributes query3)) of
                 Inl e \<Rightarrow> Inl e
               | Inr searchAttributes \<Rightarrow>
                   let searchFilterGroup =
                         makeFilterGroupForSearchKeywords S (search_list (q_search query3))
                           (case searchAttributes of None \<Rightarrow> Items [] | Some sa \<Rightarrow> sa)
                   in Inr (query3\<lparr>q_searchAttributes := searchAttributes,
                                  q_filters := addFilterGroupToEntityFilterCriteria S
                                                 searchFilterGroup (q_filters query3)\<rparr>))
            else Inr query2
          else Inr query1)"

record list_result =
  result_data :: "obj list"
  result_rest :: obj
  result_query :: entity_query

text \<open>\<^verbatim>\<open>list(query)\<close>: the query is normalised, the records are read, serialised and
  hydrated, and they are returned with the query.\<close>

definition list_entities :: "service_env \<Rightarrow> entity_schema \<Rightarrow> entity_query \<Rightarrow> js_error + list_result" where
  "list_entities S schema query0 =
     (case list_query S schema query0 of
        Inl e \<Rightarrow> Inl e
      | Inr query \<Rightarrow>
          (case listEntity S query of
             Inl e \<Rightarrow> Inl e
           | Inr found \<Rightarrow>
               (case q_attributes query of
                  None \<Rightarrow>
                    (case getDefaultSerializationAttributeNames (toHumanReadableName S) schema of
                       Inl e \<Rightarrow> Inl e
                     | Inr names \<Rightarrow>
                         Inr \<lparr>result_data = serializeRecords S (data found) (Paths names),
                              result_rest = rest_of_page found, result_query = query\<rparr>)
                | Some attrs \<Rightarrow>
                    let serialized = serializeRecords S (data found) attrs in
                    (case attrs of
                       Paths ps \<Rightarrow>
                         Inr \<lparr>result_data = serialized, result_rest = rest_of_page found,
                              result_query = query\<rparr>
                     | Tree t \<Rightarrow>
                         if relationalAttributes S t = [] then
                           Inr \<lparr>result_data = serialized, result_rest = rest_of_page found,
                                result_query = query\<rparr>
                         else
                           (case all_outcome
                                   (hydrateRecords (hydration S) schema
                                      (relationalAttributes S t) serialized) of
                              Inl (moment, e) \<Rightarrow> Inl e
                            | Inr (hydrated, relations) \<Rightarrow>
                                Inr \<lparr>result_data = hydrated, result_rest = rest_of_page found,
                                     result_query =
                                       query\<lparr>q_attributes := Some (Tree (with_options t relations))\<rparr>\<rparr>)))))"

subsection \<open>query\<close>

text \<open>\<^verbatim>\<open>query\<close> up to the call of \<^verbatim>\<open>queryEntity\<close>: the selection it resolved, which it
  keeps in a variable of its own, and the query as the persistence operation receives
  it.\<close>

definition query_query ::
  "service_env \<Rightarrow> entity_schema \<Rightarrow> entity_query \<Rightarrow> js_error + obj \<times> entity_query" where
  "query_query S schema query =
     (case (case q_attributes query of
              None \<Rightarrow> map_sum id (\<lambda>names. Paths names)
                        (getListingAttributeNames (toHumanReadableName S) schema)
            | Some a \<Rightarrow> Inr a) of
        Inl e \<Rightarrow> Inl e
      | Inr attrs \<Rightarrow>
          let selectAttributes =
                (case attrs of
                   Paths ps \<Rightarrow>
                     inferRelationshipsForEntitySelections S schema
                       (parseEntityAttributePaths S ps)
                 | Tree t \<Rightarrow> inferRelationshipsForEntitySelections S schema t)
          in
          if truthy_text_or_items (q_search query) then
            let query2 = query\<lparr>q_search := split_search (q_search query)\<rparr> in
            if length (search_list (q_search query2)) > 0 then
              (case (if truthy_text_or_items (q_searchAttributes query2)
                     then Inr (q_searchAttributes query2)
                     else map_sum id (\<lambda>names. Some (Items names))
                            (getSearchableAttributeNames schema)) of
                 Inl e \<Rightarrow> Inl e
               | Inr searchAttributes \<Rightarrow>
                   let searchFilterGroup =
                         makeFilterGroupForSearchKeywords S (search_list (q_search query2))
                           (case searchAttributes of None \<Rightarrow> Items [] | Some sa \<Rightarrow> sa)
                   in Inr (selectAttributes,
                           query2\<lparr>q_searchAttributes := searchAttributes,
                                  q_filters := addFilterGroupToEntityFilterCriteria S
                                                 searchFilterGroup (q_filters query2)\<rparr>))
            else Inr (selectAttributes, query2)
          else Inr (selectAttributes, query))"

definition query_entities :: "service_env \<Rightarrow> entity_schema \<Rightarrow> entity_query \<Rightarrow> js_error + list_result" where
  "query_entities S schema query0 =
     (case query_query S schema query0 of
        Inl e \<Rightarrow> Inl e
      | Inr (selectAttributes, query) \<Rightarrow>
          (case queryEntity S query of
             Inl e \<Rightarrow> Inl e
           | Inr found \<Rightarrow>
               let serialized = serializeRecords S (data found) (Tree selectAttributes) in
               if relationalAttributes S selectAttributes = [] then
                 Inr \<lparr>result_data = serialized, result_rest = rest_of_page found,
                      result_query = query\<rparr>
               else
                 (case all_outcome
                         (hydrateRecords (hydration S) schema
                            (relationalAttributes S selectAttributes) serialized) of
                    Inl (moment, e) \<Rightarrow> Inl e
                  | Inr (hydrated, relations) \<Rightarrow>
                      Inr \<lparr>result_data = hydrated, result_rest = rest_of_page found,
                           result_query = query\<rparr>)))"

section \<open>An order and customer scenario\<close>

text \<open>Modelled from the spec: \<^verbatim>\<open>getValueByPath\<close> of the utilities module is not among the
  sources. The spec has the source values resolved "by path lookup into the raw relation
  value (supporting nested path lookup, not just flat keys)": the path is split at its
  dots and followed one property at a time.\<close>

fun path_lookup :: "jsval \<Rightarrow> string list \<Rightarrow> jsval" where
  "path_lookup v [] = v"
| "path_lookup v (k # ks) = path_lookup (js_get_opt v k) ks"

definition getValueByPath_spec :: "jsval \<Rightarrow> jsval \<Rightarrow> jsval" where
  "getValueByPath_spec v path =
     path_lookup v (split_at (\<lambda>c. c = CHR ''.'') (js_to_string path))"

text \<open>Modelled from the spec: \<^verbatim>\<open>isObject\<close> of the utilities module is not among the
  sources; it is taken to accept the plain objects.\<close>

definition isObject_spec :: "jsval \<Rightarrow> bool" where
  "isObject_spec v = (case v of JObj kvs \<Rightarrow> True | _ \<Rightarrow> False)"

text \<open>The entity \<^verbatim>\<open>Order\<close> has the relation attribute \<^verbatim>\<open>customer\<close> with the identifier
  mapping \<^verbatim>\<open>customerId -> id\<close> to the entity \<^verbatim>\<open>Customer\<close>, whose registered service
  returns Ann and Bob for the batch \<^verbatim>\<open>[{id: "c1"}, {id: "c2"}]\<close>.\<close>

definition customers :: "jsval list" where
  "customers = [JObj [(''id'', JStr ''c1''), (''name'', JStr ''Ann'')],
                JObj [(''id'', JStr ''c2''), (''name'', JStr ''Bob'')]]"

definition customer_service :: related_service where
  "customer_service =
     \<lparr>primaryIdPropertyName = Some ''id'',
      service_get = (\<lambda>ids sel.
        Inr (JArr (filter (\<lambda>c. JObj [(''id'', obj_get (own_entries c) ''id'')] \<in> set ids)
                     customers)))\<rparr>"

definition shop_env :: hydrate_env where
  "shop_env =
     \<lparr>getEntityServiceByEntityName =
        (\<lambda>n. if n = JStr ''Customer'' then Some customer_service else None),
      isObject = isObject_spec,
      getValueByPath = getValueByPath_spec,
      fetch_settles = (\<lambda>relatedAttributeName. 0)\<rparr>"

definition order_schema :: entity_schema where
  "order_schema =
     \<lparr>model_entity = ''Order'',
      attributes =
        [(''id'', JObj [(''type'', JStr ''number''), (''isIdentifier'', JBool True)]),
         (''customerId'', JObj [(''type'', JStr ''string'')]),
         (''customer'',
          JObj [(''type'', JStr ''map''),
                (''properties'', JObj [(''customerId'', JObj [(''type'', JStr ''string'')])]),
                (''relation'',
                 JObj [(''entityName'', JStr ''Customer''),
                       (''identifiers'',
                        JObj [(''source'', JStr ''customerId''),
                              (''target'', JStr ''id'')])])])],
      indexes = [(''primary'', \<lparr>pk_composite = [''id''], sk_composite = None\<rparr>)]\<rparr>"

definition customer_options :: obj where
  "customer_options = [(''entityName'', JStr ''Customer''), (''attributes'', JArr [JStr ''name''])]"

text \<open>The root records as the spec's scenario lists them: the customer identifier is a
  field of the order, and no order has a \<^verbatim>\<open>customer\<close> field.\<close>

definition spec_orders :: "obj list" where
  "spec_orders = [[(''id'', JNum 1), (''customerId'', JStr ''c1'')],
                  [(''id'', JNum 2), (''customerId'', JStr ''c1'')],
                  [(''id'', JNum 3), (''customerId'', JStr ''c2'')]]"

text \<open>The same orders with the customer identifier inside the raw value of the relation
  attribute, which is where hydration looks it up.\<close>

definition orders :: "obj list" where
  "orders = [[(''id'', JNum 1), (''customer'', JObj [(''customerId'', JStr ''c1'')])],
             [(''id'', JNum 2), (''customer'', JObj [(''customerId'', JStr ''c1'')])],
             [(''id'', JNum 3), (''customer'', JObj [(''customerId'', JStr ''c2'')])]]"

text \<open>Orders without a customer: one holds \<^verbatim>\<open>null\<close>, one has no such field.\<close>

definition orders_without_customer :: "obj list" where
  "orders_without_customer = [[(''id'', JNum 1), (''customer'', JNull)], [(''id'', JNum 2)]]"

text \<open>Three orders of the same customer.\<close>

definition same_customer_orders :: "obj list" where
  "same_customer_orders =
     [[(''id'', JNum 1), (''customer'', JObj [(''customerId'', JStr ''c1'')])],
      [(''id'', JNum 2), (''customer'', JObj [(''customerId'', JStr ''c1'')])],
      [(''id'', JNum 3), (''customer'', JObj [(''customerId'', JStr ''c1'')])]]"

text \<open>An order of customer c1 followed by an order whose customer is \<^verbatim>\<open>null\<close>.\<close>

definition orders_one_null :: "obj list" where
  "orders_one_null =
     [[(''id'', JNum 1), (''customer'', JObj [(''customerId'', JStr ''c1'')])],
      [(''id'', JNum 2), (''customer'', JNull)]]"

section \<open>The notions of the specification\<close>

subsection \<open>The related record of an identifier mapping, in the spec's words\<close>

text \<open>
  The spec matches a root record with its related records "by identifier equality": a
  fetched record agrees with an identifier mapping when every identifier attribute of
  the mapping is a property of the record with a strictly equal value, and the related
  record is the first fetched record that agrees, \<^verbatim>\<open>undefined\<close> when there is none (or
  nothing was fetched). What a root record is given follows the cardinality of its raw
  value: a sequence of related records for a sequence; for a single value the related
  record of its identifier mapping, and the empty sequence when the value gave no
  identifier mapping.
\<close>

definition matches_identifiers :: "obj \<Rightarrow> jsval \<Rightarrow> bool" where
  "matches_identifiers identifiers relatedEntityData =
     list_all (\<lambda>(target, v). obj_has (own_props relatedEntityData) target
                 \<and> strict_equals (obj_get (own_props relatedEntityData) target) v)
       identifiers"

definition first_match :: "obj \<Rightarrow> jsval list \<Rightarrow> jsval" where
  "first_match identifiers rs =
     (case filter (matches_identifiers identifiers) rs of [] \<Rightarrow> JUndefined | r # others \<Rightarrow> r)"

definition related_record :: "jsval \<Rightarrow> obj \<Rightarrow> jsval" where
  "related_record relatedEntities identifiers =
     (case relatedEntities of JArr rs \<Rightarrow> first_match identifiers rs | _ \<Rightarrow> JUndefined)"

definition assigned_relation :: "jsval \<Rightarrow> string \<Rightarrow> obj \<Rightarrow> obj list \<Rightarrow> jsval" where
  "assigned_relation relatedEntities relatedAttributeName root identifiersBatch =
     (if isToManyRelation root relatedAttributeName
      then JArr (map (related_record relatedEntities) identifiersBatch)
      else (case identifiersBatch of
              [] \<Rightarrow> JArr []
            | identifiers # others \<Rightarrow> related_record relatedEntities identifiers))"

subsection \<open>The serialization key\<close>

text \<open>The serialization of an identifier object, the key under which
  \<^verbatim>\<open>hydrateSingleRelation\<close> removes duplicates: \<^verbatim>\<open>JSON.stringify\<close> of an object whose values
  all serialize, a property that does not serialize being left out.\<close>

definition canonical :: "obj \<Rightarrow> json" where
  "canonical i = JsonObj (List.map_filter (\<lambda>(k, r). map_option (Pair k) r)
                            (map (map_prod id JSON_stringify) i))"

subsection \<open>Operation schemas in the spec's words\<close>

text \<open>An attribute is entered under a flag when it is not hidden and the formatted flag
  is truthy.\<close>

definition shown_in :: "jsval \<Rightarrow> string \<Rightarrow> bool" where
  "shown_in att flag =
     (\<not> truthy (obj_get (own_entries att) ''hidden'') \<and> truthy (format_flag att flag))"

text \<open>The flags in the spec's words: an attribute is marked hidden when its \<^verbatim>\<open>hidden\<close>
  property is truthy, and a flag is on unless the attribute has the property with a falsy
  value (it defaults to true when unset).\<close>

definition marked_hidden :: "jsval \<Rightarrow> bool" where
  "marked_hidden att = truthy (obj_get (own_entries att) ''hidden'')"

definition flag_on :: "jsval \<Rightarrow> string \<Rightarrow> bool" where
  "flag_on att k = (if obj_has (own_props att) k then truthy (obj_get (own_props att) k) else True)"

subsection \<open>Access patterns and identifiers in the spec's words\<close>

text \<open>The composite attributes of an index: those of the partition key followed by
  those of the sort key.\<close>

definition composite_names :: "index_def \<Rightarrow> string list" where
  "composite_names idx =
     pk_composite idx @ (case sk_composite idx of None \<Rightarrow> [] | Some sk \<Rightarrow> sk)"

text \<open>The identifier names in the spec's words: the attribute names of every resolved
  access pattern, or of the one named by the context, and what is extracted for a name:
  the input's own value, or the value of \<^verbatim>\<open>id\<close> for the schema's primary identifier
  attribute when the input has no such property but has \<^verbatim>\<open>id\<close>.\<close>

definition selected_pattern :: "string option \<Rightarrow> string \<Rightarrow> bool" where
  "selected_pattern forAccessPattern name =
     (forAccessPattern = None \<or> forAccessPattern = Some [] \<or> Some name = forAccessPattern)"

fun identifier_names :: "access_patterns \<Rightarrow> string option \<Rightarrow> string list" where
  "identifier_names [] forAccessPattern = []"
| "identifier_names ((name, attrs) # rest) forAccessPattern =
     (if selected_pattern forAccessPattern name
      then (case attrs of None \<Rightarrow> [] | Some m \<Rightarrow> Map_keys m) @ identifier_names rest forAccessPattern
      else identifier_names rest forAccessPattern)"

definition formatted_pattern :: "(string \<times> obj) list \<Rightarrow> bool" where
  "formatted_pattern m =
     list_all (\<lambda>(k, f). obj_get f ''id'' = JStr k \<and> obj_get f ''required'' = JUndefined) m"

definition extracted :: "string option \<Rightarrow> obj \<Rightarrow> string list \<Rightarrow> string \<Rightarrow> jsval option" where
  "extracted primary inp names a =
     (if a \<in> set names \<and> obj_has inp a then Some (obj_get inp a)
      else if a \<in> set names \<and> primary = Some a \<and> obj_has inp ''id''
      then Some (obj_get inp ''id'')
      else None)"

text \<open>The schema's primary identifier attribute in the spec's words: the first attribute
  of the schema that is flagged \<^verbatim>\<open>isIdentifier\<close>, if there is one.\<close>

definition primary_identifier :: "entity_schema \<Rightarrow> string option" where
  "primary_identifier schema =
     (case filter (\<lambda>(n, att). truthy (obj_get (own_props att) ''isIdentifier''))
             (attributes schema) of
        [] \<Rightarrow> None
      | (n, att) # others \<Rightarrow> Some n)"

text \<open>The identifier names of the resolved access patterns in terms of the schema: the
  composite attributes of the index that the context names (the first declared index
  under the name \<^verbatim>\<open>primary\<close> when no index has that name), and those of every index
  when the context names none.\<close>

definition index_named :: "entity_schema \<Rightarrow> string \<Rightarrow> index_def option" where
  "index_named schema name =
     (case map_of (indexes schema) name of
        Some idx \<Rightarrow> Some idx
      | None \<Rightarrow>
          (case indexes schema of
             [] \<Rightarrow> None
           | (first, idx) # others \<Rightarrow> if name = ''primary'' then Some idx else None))"

definition identifier_set :: "entity_schema \<Rightarrow> string option \<Rightarrow> string set" where
  "identifier_set schema forAccessPattern =
     (case forAccessPattern of
        None \<Rightarrow> (\<Union>idx \<in> snd ` set (indexes schema). set (composite_names idx))
      | Some name \<Rightarrow>
          if name = [] then (\<Union>idx \<in> snd ` set (indexes schema). set (composite_names idx))
          else (case index_named schema name of
                  None \<Rightarrow> {}
                | Some idx \<Rightarrow> set (composite_names idx)))"

subsection \<open>Search attributes in the spec's words\<close>

text \<open>The default searchable attributes in the spec's words: not hidden, not an
  identifier, of type string, and not flagged \<^verbatim>\<open>isSearchable: false\<close>.\<close>

definition searchable_attribute :: "jsval \<Rightarrow> bool" where
  "searchable_attribute att =
     (\<not> truthy (obj_get (own_props att) ''hidden'')
      \<and> \<not> truthy (obj_get (own_props att) ''isIdentifier'')
      \<and> obj_get (own_props att) ''type'' = JStr ''string''
      \<and> flag_on att ''isSearchable'')"

text \<open>The searchable attributes in the spec's words: the list the caller supplied, a
  comma-separated string being split into its names, and the default names when the
  caller supplied none or an empty one.\<close>

definition supplied_or_default :: "text_or_items option \<Rightarrow> string list \<Rightarrow> string list" where
  "supplied_or_default searchAttributes names =
     (case searchAttributes of
        None \<Rightarrow> names
      | Some (Text t) \<Rightarrow> if split_search_attributes t = [] then names else split_search_attributes t
      | Some (Items xs) \<Rightarrow> if xs = [] then names else xs)"

section \<open>A schema with two indexes, an entity service and two queries\<close>

text \<open>A schema with two indexes, none of them named \<^verbatim>\<open>primary\<close>, a required primary
  identifier, a hidden attribute that is flagged visible and an attribute that is not
  listable.\<close>

definition thing_schema :: entity_schema where
  "thing_schema =
     \<lparr>model_entity = ''thing'',
      attributes =
        [(''entityId'', JObj [(''type'', JStr ''string''), (''isIdentifier'', JBool True),
                              (''required'', JBool True)]),
         (''tenantId'', JObj [(''type'', JStr ''string'')]),
         (''name'', JObj [(''type'', JStr ''string'')]),
         (''secret'', JObj [(''type'', JStr ''string''), (''hidden'', JBool True),
                            (''isVisible'', JBool True)]),
         (''note'', JObj [(''type'', JStr ''string''), (''isListable'', JBool False)])],
      indexes =
        [(''byId'', \<lparr>pk_composite = [''entityId''], sk_composite = None\<rparr>),
         (''byTenant'', \<lparr>pk_composite = [''tenantId''], sk_composite = Some [''entityId'']\<rparr>)]\<rparr>"

text \<open>A schema whose identifier attribute is not its first attribute, and an input
  record that has no \<^verbatim>\<open>entityId\<close> but has \<^verbatim>\<open>id\<close>.\<close>

definition item_schema :: entity_schema where
  "item_schema =
     \<lparr>model_entity = ''item'',
      attributes =
        [(''name'', JObj [(''type'', JStr ''string'')]),
         (''tenantId'', JObj [(''type'', JStr ''string'')]),
         (''entityId'', JObj [(''type'', JStr ''string''), (''isIdentifier'', JBool True)])],
      indexes =
        [(''byId'', \<lparr>pk_composite = [''entityId''], sk_composite = None\<rparr>),
         (''byTenant'', \<lparr>pk_composite = [''tenantId''], sk_composite = Some [''entityId'']\<rparr>)]\<rparr>"

definition named_input :: obj where
  "named_input = [(''name'', JStr ''a''), (''id'', JStr ''123'')]"

text \<open>A service for the orders: flat paths parse into leaves, the relation of the order
  schema's \<^verbatim>\<open>customer\<close> is inferred with its options, the store holds the orders, and
  \<^verbatim>\<open>pickKeys\<close> keeps the named properties of a record.\<close>

definition order_service :: service_env where
  "order_service =
     \<lparr>parseEntityAttributePaths = (\<lambda>paths. map (\<lambda>p. (p, JBool True)) paths),
      inferRelationshipsForEntitySelections =
        (\<lambda>schema t. map (\<lambda>(k, v). if k = ''customer'' then (k, JObj customer_options)
                                    else (k, v)) t),
      makeFilterGroupForSearchKeywords = (\<lambda>terms searchAttributes. JObj []),
      addFilterGroupToEntityFilterCriteria = (\<lambda>filterGroup filters. filterGroup),
      listEntity = (\<lambda>query. Inr \<lparr>data = orders, rest_of_page = []\<rparr>),
      queryEntity = (\<lambda>query. Inr \<lparr>data = orders, rest_of_page = []\<rparr>),
      pickKeys = (\<lambda>record keys. filter (\<lambda>(k, v). k \<in> set keys) record),
      toHumanReadableName = (\<lambda>s. s),
      hydration = shop_env\<rparr>"

text \<open>A query without attributes and without a search.\<close>

definition plain_query :: entity_query where
  "plain_query = \<lparr>q_attributes = None, q_search = None, q_searchAttributes = None,
                  q_filters = JUndefined, q_rest = []\<rparr>"

text \<open>A search for two keywords over two named attributes, given as one string.\<close>

definition red_chair_query :: entity_query where
  "red_chair_query =
     \<lparr>q_attributes = None, q_search = Some (Text ''red chair''),
      q_searchAttributes = Some (Text ''title,description''),
      q_filters = JUndefined, q_rest = []\<rparr>"

text \<open>Stored orders that hold a property, \<^verbatim>\<open>etag\<close>, which is not an attribute of the
  schema, and a service whose store answers only the query that carries the selection
  resolved from the listing names of the order schema.\<close>

definition stored_orders :: "obj list" where
  "stored_orders =
     [[(''id'', JNum 1), (''etag'', JStr ''x1''),
       (''customer'', JObj [(''customerId'', JStr ''c1'')])],
      [(''id'', JNum 2), (''etag'', JStr ''x2''),
       (''customer'', JObj [(''customerId'', JStr ''c2'')])]]"

definition listing_service :: service_env where
  "listing_service =
     order_service
       \<lparr>listEntity :=
          (\<lambda>query.
             if q_attributes query =
                  Some (Tree [(''id'', JBool True), (''customerId'', JBool True),
                              (''customer'', JObj customer_options)])
             then Inr \<lparr>data = stored_orders, rest_of_page = []\<rparr>
             else Inl (Error ''unexpected query''))\<rparr>"

section \<open>Properties of relation hydration\<close>

lemma obj_get_set: "obj_get (obj_set ob k v) k' = (if k' = k then v else obj_get ob k')"
  by (simp add: obj_get_def obj_set_def update_conv')

subsection \<open>Sets and the canonical serialization\<close>

lemma foldl_Set_add:
  "distinct acc \<Longrightarrow>
   distinct (foldl Set_add acc xs) \<and> set (foldl Set_add acc xs) = set acc \<union> set xs"
  by (induction xs arbitrary: acc) (auto simp: Set_add_def)

lemma distinct_new_Set: "distinct (new_Set xs)"
  using foldl_Set_add [of "[]" xs] by (simp add: new_Set_def)

lemma set_new_Set: "set (new_Set xs) = set xs"
  using foldl_Set_add [of "[]" xs] by (simp add: new_Set_def)

lemma JSON_stringify_obj: "JSON_stringify (JObj i) = Some (canonical i)"
  by (simp add: canonical_def)

lemma Set_add_map_Some: "Set_add (map Some acc) (Some x) = map Some (Set_add acc x)"
  by (auto simp: Set_add_def)

lemma foldl_Set_add_map_Some:
  "foldl Set_add (map Some acc) (map Some xs) = map Some (foldl Set_add acc xs)"
  by (induction xs arbitrary: acc) (simp_all only: list.map foldl.simps Set_add_map_Some)

lemma new_Set_map_Some: "new_Set (map Some xs) = map Some (new_Set xs)"
  using foldl_Set_add_map_Some [of "[]" xs] by (simp add: new_Set_def)

lemma sequence_err_parse:
  "sequence_err (map JSON_parse_text (map Some js)) = Inr (map JSON_parse js)"
  by (induction js) (auto simp: JSON_parse_text_def)

lemma unique_batch:
  "uniqueRelationIdentifiersBatch b = Inr (map JSON_parse (new_Set (map canonical b)))"
proof -
  have "map (\<lambda>i. JSON_stringify (JObj i)) b = map Some (map canonical b)"
    by (simp add: canonical_def)
  then show ?thesis
    by (simp only: uniqueRelationIdentifiersBatch_def new_Set_map_Some sequence_err_parse)
qed

text \<open>Reading a text back loses nothing: different documents are different values.\<close>

lemma JSON_parse_inj: "JSON_parse a = JSON_parse b \<Longrightarrow> a = b"
proof (induction a arbitrary: b)
  case (JsonArr xs)
  then show ?case
    by (cases b) (auto dest!: list.inj_map_strong [rotated -1])
next
  case (JsonObj kvs)
  show ?case
  proof (cases b)
    case (JsonObj kvs')
    with JsonObj.prems
    have eq: "map (map_prod id JSON_parse) kvs = map (map_prod id JSON_parse) kvs'"
      by simp
    have "kvs = kvs'"
    proof (rule list.inj_map_strong [OF _ eq])
      fix z za
      assume z: "z \<in> set kvs" and "za \<in> set kvs'"
        and e: "map_prod id JSON_parse z = map_prod id JSON_parse za"
      obtain k v where zz: "z = (k, v)" by (cases z)
      obtain k' v' where za: "za = (k', v')" by (cases za)
      from e zz za have "k = k'" "JSON_parse v = JSON_parse v'" by simp_all
      moreover have "v \<in> Basic_BNFs.snds z" using zz by simp
      ultimately show "z = za" using JsonObj.IH [OF z] zz za by auto
    qed
    with JsonObj show ?thesis by simp
  qed (use JsonObj.prems in auto)
qed (case_tac b; simp)+

subsection \<open>Root records without identifiers\<close>

lemma collect_identifiers_nullish:
  "\<forall>r \<in> set roots. nullish (obj_get r rel) \<Longrightarrow>
   collect_identifiers E ms rel roots = Inr (map (\<lambda>r. []) roots)"
proof (induction roots)
  case Nil
  then show ?case by simp
next
  case (Cons r roots)
  then have n: "nullish (obj_get r rel)" by simp
  then have "identifiersDataBatch r rel = [obj_get r rel]" "\<not> truthy (obj_get r rel)"
    by (cases "obj_get r rel"; simp add: identifiersDataBatch_def)+
  with Cons show ?case by simp
qed

lemma concat_map_Nil: "concat (map (\<lambda>r. []) xs) = []"
  by (induction xs) auto

lemma unique_Nil: "uniqueRelationIdentifiersBatch [] = Inr []"
  by (simp add: uniqueRelationIdentifiersBatch_def new_Set_def)

lemmas scenario_defs =
  shop_env_def customer_service_def customers_def order_schema_def customer_options_def
  isObject_spec_def getValueByPath_spec_def

text \<open>
  Claim C7, as the code has it. The claim says that a selection naming an attribute whose
  relation metadata cannot be resolved against the schema is an error. In the code it is
  not: when a service is registered for the entity the selection names and the schema
  declares no relation for the attribute, \<^verbatim>\<open>hydrateSingleRelation\<close> logs a warning, makes
  no fetch and returns normally, leaving the root records and the options as they were.
\<close>

theorem unresolved_relation_is_skipped_with_warning:
  assumes "getEntityServiceByEntityName E (obj_get options ''entityName'') = Some svc"
      and "\<not> truthy (js_get_opt (obj_get (attributes schema) rel) ''relation'')"
  shows "hydrateSingleRelation E schema roots rel options =
           \<lparr>fetch_calls = [],
            logged_warnings = [''No metadata found for relationship: '' @ rel],
            outcome = Inr (roots, options)\<rparr>"
  using assms by (simp add: hydrateSingleRelation_def Let_def)

theorem unresolved_relation_is_skipped_witness:
  "hydrateSingleRelation shop_env order_schema orders ''supplier'' customer_options =
     \<lparr>fetch_calls = [],
      logged_warnings = [''No metadata found for relationship: supplier''],
      outcome = Inr (orders, customer_options)\<rparr>"
proof -
  have svc: "getEntityServiceByEntityName shop_env (obj_get customer_options ''entityName'')
               = Some customer_service"
    by (simp add: shop_env_def customer_options_def obj_get_def)
  have rel: "\<not> truthy (js_get_opt (obj_get (attributes order_schema) ''supplier'') ''relation'')"
    by (simp add: order_schema_def obj_get_def js_get_opt_def)
  show ?thesis
    using unresolved_relation_is_skipped_with_warning [OF svc rel, of orders] by simp
qed

text \<open>The claim C7 fails on the attribute \<^verbatim>\<open>customerId\<close> of the orders, which the schema
  declares without a relation: hydrating it is not an error.\<close>

theorem unresolved_relation_counterexample:
  "outcome (hydrateSingleRelation shop_env order_schema orders ''customerId'' customer_options)
     = Inr (orders, customer_options)"
  by (simp add: hydrateSingleRelation_def Let_def shop_env_def customer_options_def
      order_schema_def obj_get_def js_get_opt_def)

text \<open>
  Claim C10: when the raw relation value of every root record is \<^verbatim>\<open>null\<close> or absent (and
  the service and the relation metadata are found), the identifier batch is empty and
  \<^verbatim>\<open>hydrateSingleRelation\<close> throws a \<^verbatim>\<open>TypeError\<close> where it reads the keys of the first
  element of the batch, before any fetch; it does not complete.
\<close>

theorem hydrate_without_identifiers_throws:
  assumes "getEntityServiceByEntityName E (obj_get options ''entityName'') = Some svc"
      and "truthy (obj_get (attributes schema) rel)"
      and "truthy (js_get_opt (obj_get (attributes schema) rel) ''relation'')"
      and "\<forall>r \<in> set roots. nullish (obj_get r rel)"
  shows "hydrateSingleRelation E schema roots rel options =
           \<lparr>fetch_calls = [], logged_warnings = [],
            outcome = Inl (TypeError ''Cannot convert undefined or null to object'')\<rparr>"
  using assms
  by (simp add: hydrateSingleRelation_def Let_def collect_identifiers_nullish
      concat_map_Nil unique_Nil)

theorem hydrate_without_identifiers_throws_witness:
  "hydrateSingleRelation shop_env order_schema orders_without_customer ''customer''
     customer_options =
     \<lparr>fetch_calls = [], logged_warnings = [],
      outcome = Inl (TypeError ''Cannot convert undefined or null to object'')\<rparr>"
proof -
  have svc: "getEntityServiceByEntityName shop_env (obj_get customer_options ''entityName'')
               = Some customer_service"
    by (simp add: shop_env_def customer_options_def obj_get_def)
  have att: "truthy (obj_get (attributes order_schema) ''customer'')"
    by (simp add: order_schema_def obj_get_def)
  have rel: "truthy (js_get_opt (obj_get (attributes order_schema) ''customer'') ''relation'')"
    by (simp add: order_schema_def obj_get_def js_get_opt_def)
  have roots: "\<forall>r \<in> set orders_without_customer. nullish (obj_get r ''customer'')"
    by (simp add: orders_without_customer_def obj_get_def)
  show ?thesis
    using hydrate_without_identifiers_throws [OF svc att rel roots] by simp
qed

subsection \<open>The fetch and its batch\<close>

lemma hydrate_without_service_fails:
  "getEntityServiceByEntityName E (obj_get options ''entityName'') = None \<Longrightarrow>
   hydrateSingleRelation E schema roots rel options =
     \<lparr>fetch_calls = [], logged_warnings = [],
      outcome = Inl (Error ''No service found in the defaultMetaContainer for relationship'')\<rparr>"
  by (simp add: hydrateSingleRelation_def Let_def)

lemma foldl_Set_add_Cons: "\<exists>others. foldl Set_add (a # acc) xs = a # others"
  by (induction xs arbitrary: acc) (auto simp: Set_add_def)

lemma new_Set_Cons: "\<exists>others. new_Set (x # xs) = x # others"
  using foldl_Set_add_Cons [of x "[]" xs] by (simp add: new_Set_def Set_add_def)

lemma distinct_singleton_set:
  assumes "distinct xs" "set xs = {j}"
  shows "xs = [j]"
proof (cases xs)
  case Nil
  with assms show ?thesis by simp
next
  case (Cons x ys)
  with assms have "x = j" by auto
  moreover have "ys = []"
  proof (cases ys)
    case (Cons y zs)
    with assms \<open>xs = x # ys\<close> have "y = j" "y \<noteq> x" by auto
    with \<open>x = j\<close> show ?thesis by simp
  qed simp
  ultimately show ?thesis using Cons by simp
qed

lemma hydrate_calls_deduplicated:
  assumes svc: "getEntityServiceByEntityName E (obj_get options ''entityName'') = Some svc"
      and att: "truthy (obj_get (attributes schema) rel)"
      and rel: "truthy (js_get_opt (obj_get (attributes schema) rel) ''relation'')"
      and coll: "collect_identifiers E (identifierMappings svc (obj_get (attributes schema) rel))
                   rel roots = Inr dictionary"
      and ne: "concat dictionary \<noteq> []"
      and sel: "fold_identifier_keys E
                  (map fst (own_entries (JSON_parse (canonical (hd (concat dictionary))))))
                  (obj_get options ''attributes'') = Inr selected"
  shows "fetch_calls (hydrateSingleRelation E schema roots rel options) =
            [\<lparr>call_relation = rel, call_entity = obj_get options ''entityName'',
              call_identifiers = map JSON_parse (new_Set (map canonical (concat dictionary))),
              call_selections = selected\<rparr>]"
proof -
  let ?ub = "map JSON_parse (new_Set (map canonical (concat dictionary)))"
  from ne obtain i others where c: "concat dictionary = i # others"
    by (cases "concat dictionary") auto
  obtain keys where "new_Set (map canonical (concat dictionary)) = canonical i # keys"
    using new_Set_Cons [of "canonical i" "map canonical others"] by (auto simp: c)
  then have ub: "?ub = JSON_parse (canonical i) # map JSON_parse keys" by simp
  have f: "fold_identifier_keys E (map fst (own_entries (JSON_parse (canonical i))))
      (obj_get options ''attributes'') = Inr selected"
    using sel by (simp add: c)
  show ?thesis
    unfolding hydrateSingleRelation_def Let_def
    by (simp add: svc att rel coll unique_batch ub f split: sum.splits)
qed

lemma deduplicated_batch_properties:
  "distinct (map JSON_parse (new_Set (map canonical b)))
   \<and> set (new_Set (map canonical b)) = canonical ` set b
   \<and> (b \<noteq> [] \<and> (\<forall>i \<in> set b. canonical i = canonical (hd b)) \<longrightarrow>
        map JSON_parse (new_Set (map canonical b)) = [JSON_parse (canonical (hd b))])"
proof (intro conjI impI)
  show "distinct (map JSON_parse (new_Set (map canonical b)))"
    by (simp add: distinct_map distinct_new_Set inj_on_def JSON_parse_inj)
  show "set (new_Set (map canonical b)) = canonical ` set b"
    by (simp add: set_new_Set)
next
  assume a: "b \<noteq> [] \<and> (\<forall>i \<in> set b. canonical i = canonical (hd b))"
  then have "set (new_Set (map canonical b)) = {canonical (hd b)}"
    by (cases b) (auto simp: set_new_Set)
  with distinct_new_Set [of "map canonical b"]
  have "new_Set (map canonical b) = [canonical (hd b)]"
    by (rule distinct_singleton_set)
  then show "map JSON_parse (new_Set (map canonical b)) = [JSON_parse (canonical (hd b))]"
    by simp
qed

subsection \<open>The merge\<close>

lemma record_matches_spec:
  "record_matches identifiers r = Inr b \<Longrightarrow> b = matches_identifiers identifiers r"
  by (induction identifiers)
     (auto simp: matches_identifiers_def hasOwnProperty_def split: sum.splits if_splits)

lemma find_related_spec:
  "find_related identifiers rs = Inr x \<Longrightarrow> x = first_match identifiers rs"
proof (induction rs)
  case Nil
  then show ?case by (simp add: first_match_def)
next
  case (Cons r rs)
  then show ?case
    by (auto simp: first_match_def split: sum.splits if_splits dest: record_matches_spec)
qed

lemma find_in_fetched_spec:
  "find_in_fetched relatedEntities identifiers = Inr x
   \<Longrightarrow> x = related_record relatedEntities identifiers"
  by (cases relatedEntities)
     (auto simp: find_in_fetched_def related_record_def dest: find_related_spec)

lemma sequence_err_map_spec:
  "sequence_err (map f xs) = Inr ys \<Longrightarrow> (\<And>x y. f x = Inr y \<Longrightarrow> y = g x) \<Longrightarrow> ys = map g xs"
  by (induction xs arbitrary: ys) (auto split: sum.splits)

lemma merge_root_spec:
  assumes "merge_root fetched rel r b = Inr r'"
  shows "r' = obj_set r rel (assigned_relation fetched rel r b)"
proof -
  from assms obtain found where s: "sequence_err (map (find_in_fetched fetched) b) = Inr found"
    and r': "r' = obj_set r rel (if \<not> isToManyRelation r rel \<and> length found > 0
                                  then hd found else JArr found)"
    by (auto simp: merge_root_def split: sum.splits)
  from s have "found = map (related_record fetched) b"
    by (rule sequence_err_map_spec) (rule find_in_fetched_spec)
  with r' show ?thesis
    by (cases b) (auto simp: assigned_relation_def)
qed

lemma merge_roots_spec:
  "merge_roots fetched rel rs bs = Inr hs \<Longrightarrow> length bs = length rs \<Longrightarrow>
   hs = map2 (\<lambda>r b. obj_set r rel (assigned_relation fetched rel r b)) rs bs"
proof (induction rs arbitrary: bs hs)
  case Nil
  then show ?case by simp
next
  case (Cons r rs)
  then obtain b bs' where bs: "bs = b # bs'" by (cases bs) auto
  with Cons.prems show ?case
    by (auto split: sum.splits dest: merge_root_spec Cons.IH)
qed

lemma collect_identifiers_spec:
  "collect_identifiers E ms rel roots = Inr d \<Longrightarrow>
   length d = length roots \<and>
   (\<forall>n < length roots. identifiers_batch E ms (identifiersDataBatch (roots ! n) rel) = Inr (d ! n))"
proof (induction roots arbitrary: d)
  case Nil
  then show ?case by simp
next
  case (Cons r roots)
  then show ?case
    by (auto split: sum.splits simp: nth_Cons split: nat.splits)
qed

lemma identifiers_batch_length:
  "identifiers_batch E ms ds = Inr b \<Longrightarrow> length b = length (filter truthy ds)"
  by (induction ds arbitrary: b) (auto split: sum.splits if_splits)

lemma hydrate_success_cases:
  assumes out: "outcome (hydrateSingleRelation E schema roots rel options) = Inr (hydrated, options')"
      and svc: "getEntityServiceByEntityName E (obj_get options ''entityName'') = Some svc"
      and att: "truthy (obj_get (attributes schema) rel)"
      and rel: "truthy (js_get_opt (obj_get (attributes schema) rel) ''relation'')"
  obtains dictionary selected fetched where
    "collect_identifiers E (identifierMappings svc (obj_get (attributes schema) rel)) rel roots
       = Inr dictionary"
    "concat dictionary \<noteq> []"
    "service_get svc (map JSON_parse (new_Set (map canonical (concat dictionary)))) selected
       = Inr fetched"
    "merge_roots fetched rel roots dictionary = Inr hydrated"
    "fetch_calls (hydrateSingleRelation E schema roots rel options) =
       [\<lparr>call_relation = rel, call_entity = obj_get options ''entityName'',
         call_identifiers = map JSON_parse (new_Set (map canonical (concat dictionary))),
         call_selections = selected\<rparr>]"
proof -
  let ?ms = "identifierMappings svc (obj_get (attributes schema) rel)"
  have h: "hydrateSingleRelation E schema roots rel options =
     (case collect_identifiers E ?ms rel roots of
              Inl e \<Rightarrow> \<lparr>fetch_calls = [], logged_warnings = [], outcome = Inl e\<rparr>
            | Inr dictionary \<Rightarrow>
                (case uniqueRelationIdentifiersBatch (concat dictionary) of
                   Inl e \<Rightarrow> \<lparr>fetch_calls = [], logged_warnings = [], outcome = Inl e\<rparr>
                 | Inr uniqueBatch \<Rightarrow>
                     (case uniqueBatch of
                        [] \<Rightarrow>
                          \<lparr>fetch_calls = [], logged_warnings = [],
                           outcome = Inl (TypeError ''Cannot convert undefined or null to object'')\<rparr>
                      | first # others \<Rightarrow>
                          (case fold_identifier_keys E (map fst (own_entries first))
                                  (obj_get options ''attributes'') of
                             Inl e \<Rightarrow> \<lparr>fetch_calls = [], logged_warnings = [], outcome = Inl e\<rparr>
                           | Inr selected \<Rightarrow>
                               (case service_get svc uniqueBatch selected of
                                  Inl e \<Rightarrow>
                                    \<lparr>fetch_calls = [\<lparr>call_relation = rel,
                                           call_entity = obj_get options ''entityName'',
                                           call_identifiers = uniqueBatch,
                                           call_selections = selected\<rparr>], logged_warnings = [], outcome = Inl e\<rparr>
                                | Inr relatedEntities \<Rightarrow>
                                    (case merge_roots relatedEntities rel
                                            roots dictionary of
                                       Inl e \<Rightarrow>
                                         \<lparr>fetch_calls = [\<lparr>call_relation = rel,
                                           call_entity = obj_get options ''entityName'',
                                           call_identifiers = uniqueBatch,
                                           call_selections = selected\<rparr>], logged_warnings = [],
                                          outcome = Inl e\<rparr>
                                     | Inr hydrated \<Rightarrow>
                                         \<lparr>fetch_calls = [\<lparr>call_relation = rel,
                                           call_entity = obj_get options ''entityName'',
                                           call_identifiers = uniqueBatch,
                                           call_selections = selected\<rparr>], logged_warnings = [],
                                          outcome = Inr (hydrated, (if selected = obj_get options ''attributes'' then options
                                      else obj_set options ''attributes'' selected))\<rparr>))))))"
    unfolding hydrateSingleRelation_def Let_def by (simp add: svc att rel)
  obtain dictionary where c: "collect_identifiers E ?ms rel roots = Inr dictionary"
    using out unfolding h by (cases "collect_identifiers E ?ms rel roots") auto
  let ?ub = "map JSON_parse (new_Set (map canonical (concat dictionary)))"
  obtain first others where ub: "?ub = first # others"
    using out unfolding h by (cases ?ub) (auto simp: c unique_batch)
  have ne: "concat dictionary \<noteq> []"
  proof
    assume e: "concat dictionary = []"
    have "?ub = []" unfolding e by (simp add: new_Set_def)
    with ub show False by simp
  qed
  obtain selected where f: "fold_identifier_keys E (map fst (own_entries first))
                                  (obj_get options ''attributes'') = Inr selected"
    using out unfolding h
    by (cases "fold_identifier_keys E (map fst (own_entries first)) (obj_get options ''attributes'')")
       (auto simp: c unique_batch ub)
  obtain fetched where g: "service_get svc ?ub selected = Inr fetched"
    using out unfolding h
    by (cases "service_get svc ?ub selected") (auto simp: c unique_batch ub f)
  have m: "merge_roots fetched rel roots dictionary = Inr hydrated"
    using out g unfolding h
    by (cases "merge_roots fetched rel roots dictionary") (auto simp: c unique_batch ub f)
  have calls: "fetch_calls (hydrateSingleRelation E schema roots rel options) =
       [\<lparr>call_relation = rel, call_entity = obj_get options ''entityName'',
         call_identifiers = ?ub, call_selections = selected\<rparr>]"
    using g m unfolding h by (simp add: c unique_batch ub f)
  from c ne g m calls show ?thesis by (rule that)
qed

lemma identifiersDataBatch_single:
  "\<not> isToManyRelation r rel \<Longrightarrow> identifiersDataBatch r rel = [obj_get r rel]"
  by (cases "obj_get r rel") (auto simp: isToManyRelation_def identifiersDataBatch_def)

lemma fetch_calls_cases:
  "fetch_calls (hydrateSingleRelation E schema roots rel options) = []
   \<or> (\<exists>c. fetch_calls (hydrateSingleRelation E schema roots rel options) = [c]
          \<and> call_relation c = rel)"
  by (simp add: hydrateSingleRelation_def Let_def
      split: option.splits sum.splits list.splits)

lemma hydrateRecords_calls_subseq:
  "subseq (map call_relation (all_fetch_calls (hydrateRecords E schema rels roots)))
          (map fst rels)"
proof (induction rels arbitrary: roots)
  case Nil
  then show ?case by simp
next
  case (Cons r rels)
  obtain rel opts where r: "r = (rel, opts)" by (cases r)
  define roots1 where "roots1 =
     (case outcome (hydrateSingleRelation E schema roots rel opts) of
        Inl e \<Rightarrow> roots | Inr (rs, os) \<Rightarrow> rs)"
  have calls: "all_fetch_calls (hydrateRecords E schema (r # rels) roots) =
          fetch_calls (hydrateSingleRelation E schema roots rel opts)
            @ all_fetch_calls (hydrateRecords E schema rels roots1)"
    by (simp add: r Let_def roots1_def)
  from fetch_calls_cases [of E schema roots rel opts] show ?case
  proof
    assume "fetch_calls (hydrateSingleRelation E schema roots rel opts) = []"
    then have "all_fetch_calls (hydrateRecords E schema (r # rels) roots) =
        all_fetch_calls (hydrateRecords E schema rels roots1)"
      unfolding calls by simp
    then show ?thesis
      unfolding r using Cons.IH [of roots1] by (simp add: list_emb_Cons)
  next
    assume "\<exists>c. fetch_calls (hydrateSingleRelation E schema roots rel opts) = [c]
          \<and> call_relation c = rel"
    then obtain c where c: "fetch_calls (hydrateSingleRelation E schema roots rel opts) = [c]"
      and cr: "call_relation c = rel" by blast
    have "all_fetch_calls (hydrateRecords E schema (r # rels) roots) =
        c # all_fetch_calls (hydrateRecords E schema rels roots1)"
      unfolding calls c by simp
    then show ?thesis
      unfolding r using Cons.IH [of roots1] cr by simp
  qed
qed

lemma distinct_filter_eq_le_one:
  "distinct xs \<Longrightarrow> length (filter (\<lambda>n. n = a) xs) \<le> 1"
  by (induction xs) (auto simp: filter_empty_conv)

lemma at_most_one_fetch_per_relation:
  assumes "distinct (map fst rels)"
  shows "length (filter (\<lambda>c. call_relation c = rel)
            (all_fetch_calls (hydrateRecords E schema rels roots))) \<le> 1"
proof -
  let ?names = "map call_relation (all_fetch_calls (hydrateRecords E schema rels roots))"
  have "distinct ?names"
    using hydrateRecords_calls_subseq [of E schema rels roots] assms
    by (auto simp: subseq_conv_nths distinct_nthsI)
  then have "length (filter (\<lambda>n. n = rel) ?names) \<le> 1"
    by (rule distinct_filter_eq_le_one)
  moreover have "length (filter (\<lambda>c. call_relation c = rel)
            (all_fetch_calls (hydrateRecords E schema rels roots)))
       = length (filter (\<lambda>n. n = rel) ?names)"
    by (simp add: filter_map comp_def)
  ultimately show ?thesis by simp
qed

lemma hydrate_fetches_once_when_identifiers_exist:
  assumes svc: "getEntityServiceByEntityName E (obj_get options ''entityName'') = Some svc"
      and att: "truthy (obj_get (attributes schema) rel)"
      and rel: "truthy (js_get_opt (obj_get (attributes schema) rel) ''relation'')"
      and coll: "collect_identifiers E (identifierMappings svc (obj_get (attributes schema) rel))
                   rel roots = Inr dictionary"
      and ne: "concat dictionary \<noteq> []"
      and sel: "fold_identifier_keys E
                  (map fst (own_entries (JSON_parse (canonical (hd (concat dictionary))))))
                  (obj_get options ''attributes'') = Inr selected"
  shows "fetch_calls (hydrateSingleRelation E schema roots rel options) =
            [\<lparr>call_relation = rel, call_entity = obj_get options ''entityName'',
              call_identifiers = map JSON_parse (new_Set (map canonical (concat dictionary))),
              call_selections = selected\<rparr>]
       \<and> all_fetch_calls (hydrateRecords E schema [(rel, options)] roots)
           = fetch_calls (hydrateSingleRelation E schema roots rel options)
       \<and> distinct (map JSON_parse (new_Set (map canonical (concat dictionary))))
       \<and> set (new_Set (map canonical (concat dictionary))) = canonical ` set (concat dictionary)
       \<and> ((\<forall>i \<in> set (concat dictionary). canonical i = canonical (hd (concat dictionary))) \<longrightarrow>
            map JSON_parse (new_Set (map canonical (concat dictionary)))
              = [JSON_parse (canonical (hd (concat dictionary)))])"
proof -
  note calls = hydrate_calls_deduplicated [OF svc att rel coll ne sel]
  note props = deduplicated_batch_properties [of "concat dictionary"]
  have top: "all_fetch_calls (hydrateRecords E schema [(rel, options)] roots)
           = fetch_calls (hydrateSingleRelation E schema roots rel options)"
    by (simp add: Let_def)
  from calls top props ne show ?thesis by blast
qed

text \<open>
  Claim C1 on the code. Where the root records give an identifier mapping the claim holds:
  three orders of the one customer \<^verbatim>\<open>c1\<close> are hydrated with one call of \<^verbatim>\<open>get\<close>, whose
  batch holds the one identifier. Where they give none the code makes no call at all: for
  orders whose customer is \<^verbatim>\<open>null\<close> or absent, and for an empty page of records, the
  deduplicated batch is empty, \<^verbatim>\<open>Object.keys(uniqueRelationIdentifiersBatch[0])\<close> throws
  before the fetch, and \<^verbatim>\<open>list\<close> over an empty page fails with that error when its
  selection holds the relation.
\<close>

theorem hydrate_without_identifiers_makes_no_fetch:
  "fetch_calls (hydrateSingleRelation shop_env order_schema orders_without_customer
      ''customer'' customer_options) = []
   \<and> outcome (hydrateSingleRelation shop_env order_schema orders_without_customer
      ''customer'' customer_options)
       = Inl (TypeError ''Cannot convert undefined or null to object'')
   \<and> all_fetch_calls (hydrateRecords shop_env order_schema [(''customer'', customer_options)] [])
       = []
   \<and> all_outcome (hydrateRecords shop_env order_schema [(''customer'', customer_options)] [])
       = Inl (0, TypeError ''Cannot convert undefined or null to object'')
   \<and> list_entities
        (order_service\<lparr>listEntity := (\<lambda>query. Inr \<lparr>data = [], rest_of_page = []\<rparr>)\<rparr>)
        order_schema plain_query
       = Inl (TypeError ''Cannot convert undefined or null to object'')
   \<and> map (\<lambda>c. (call_relation c, call_entity c, call_identifiers c))
        (all_fetch_calls (hydrateRecords shop_env order_schema
           [(''customer'', customer_options)] same_customer_orders))
       = [(''customer'', JStr ''Customer'', [JObj [(''id'', JStr ''c1'')]])]"
  by code_simp

theorem hydrate_without_identifiers_makes_no_fetch_witness:
  "length (all_fetch_calls (hydrateRecords shop_env order_schema
      [(''customer'', customer_options)] [])) = 0
   \<and> length (fetch_calls (hydrateSingleRelation shop_env order_schema orders_without_customer
      ''customer'' customer_options)) = 0
   \<and> length (all_fetch_calls (hydrateRecords shop_env order_schema
      [(''customer'', customer_options)] same_customer_orders)) = 1"
proof -
  note h = hydrate_without_identifiers_makes_no_fetch
  from h have a: "all_fetch_calls (hydrateRecords shop_env order_schema
      [(''customer'', customer_options)] []) = []"
    by (elim conjE)
  from h have b: "fetch_calls (hydrateSingleRelation shop_env order_schema
      orders_without_customer ''customer'' customer_options) = []"
    by (elim conjE)
  from h have "length (map (\<lambda>c. (call_relation c, call_entity c, call_identifiers c))
        (all_fetch_calls (hydrateRecords shop_env order_schema
           [(''customer'', customer_options)] same_customer_orders))) = 1"
    by (elim conjE) simp
  then have c: "length (all_fetch_calls (hydrateRecords shop_env order_schema
      [(''customer'', customer_options)] same_customer_orders)) = 1"
    by simp
  from a b c show ?thesis by simp
qed

text \<open>
  Claim C4, as the code has it. After a fetch that returned, every root record comes back
  with only its relation attribute changed. A root record whose raw value was a sequence
  receives a sequence, with the related record of each truthy element; one whose raw
  value was a single truthy value receives a single related record; one whose raw value
  was falsy (\<^verbatim>\<open>null\<close>, absent) receives the empty sequence. The related record of an
  identifier mapping is the first fetched record that agrees with it on every identifier
  attribute, \<^verbatim>\<open>undefined\<close> when there is none. The identifier mappings are read from the
  raw value of the relation attribute, so the orders of the scenario have to carry the
  customer identifier there to receive Ann, Ann and Bob.
\<close>

theorem hydrate_assigns_related_records:
  assumes out: "outcome (hydrateSingleRelation E schema roots rel options) = Inr (hydrated, options')"
      and svc: "getEntityServiceByEntityName E (obj_get options ''entityName'') = Some svc"
      and att: "truthy (obj_get (attributes schema) rel)"
      and rel: "truthy (js_get_opt (obj_get (attributes schema) rel) ''relation'')"
  shows "\<exists>call fetched dictionary.
           fetch_calls (hydrateSingleRelation E schema roots rel options) = [call]
         \<and> service_get svc (call_identifiers call) (call_selections call) = Inr fetched
         \<and> collect_identifiers E (identifierMappings svc (obj_get (attributes schema) rel))
               rel roots = Inr dictionary
         \<and> length dictionary = length roots
         \<and> hydrated = map2 (\<lambda>r b. obj_set r rel (assigned_relation fetched rel r b))
                         roots dictionary
         \<and> (\<forall>n < length roots.
               (isToManyRelation (roots ! n) rel \<longrightarrow>
                  obj_get (hydrated ! n) rel =
                    JArr (map (related_record fetched) (dictionary ! n))
                  \<and> length (dictionary ! n) =
                      length (filter truthy (identifiersDataBatch (roots ! n) rel)))
             \<and> (\<not> isToManyRelation (roots ! n) rel \<and> truthy (obj_get (roots ! n) rel) \<longrightarrow>
                  (\<exists>identifiers. dictionary ! n = [identifiers]
                     \<and> obj_get (hydrated ! n) rel = related_record fetched identifiers))
             \<and> (\<not> isToManyRelation (roots ! n) rel \<and> \<not> truthy (obj_get (roots ! n) rel) \<longrightarrow>
                  obj_get (hydrated ! n) rel = JArr []))"
proof -
  let ?ms = "identifierMappings svc (obj_get (attributes schema) rel)"
  from out svc att rel obtain dictionary selected fetched where
    c: "collect_identifiers E ?ms rel roots = Inr dictionary"
    and g: "service_get svc (map JSON_parse (new_Set (map canonical (concat dictionary)))) selected
       = Inr fetched"
    and m: "merge_roots fetched rel roots dictionary = Inr hydrated"
    and calls: "fetch_calls (hydrateSingleRelation E schema roots rel options) =
       [\<lparr>call_relation = rel, call_entity = obj_get options ''entityName'',
         call_identifiers = map JSON_parse (new_Set (map canonical (concat dictionary))),
         call_selections = selected\<rparr>]"
    by (rule hydrate_success_cases)
  from collect_identifiers_spec [OF c]
  have len: "length dictionary = length roots"
    and each: "\<And>n. n < length roots \<Longrightarrow>
       identifiers_batch E ?ms (identifiersDataBatch (roots ! n) rel) = Inr (dictionary ! n)"
    by auto
  from merge_roots_spec [OF m len]
  have hyd: "hydrated = map2 (\<lambda>r b. obj_set r rel (assigned_relation fetched rel r b))
                         roots dictionary" .
  have per_root: "(isToManyRelation (roots ! n) rel \<longrightarrow>
                  obj_get (hydrated ! n) rel =
                    JArr (map (related_record fetched) (dictionary ! n))
                  \<and> length (dictionary ! n) =
                      length (filter truthy (identifiersDataBatch (roots ! n) rel)))
             \<and> (\<not> isToManyRelation (roots ! n) rel \<and> truthy (obj_get (roots ! n) rel) \<longrightarrow>
                  (\<exists>identifiers. dictionary ! n = [identifiers]
                     \<and> obj_get (hydrated ! n) rel = related_record fetched identifiers))
             \<and> (\<not> isToManyRelation (roots ! n) rel \<and> \<not> truthy (obj_get (roots ! n) rel) \<longrightarrow>
                  obj_get (hydrated ! n) rel = JArr [])" if n: "n < length roots" for n
  proof -
    have v: "obj_get (hydrated ! n) rel = assigned_relation fetched rel (roots ! n) (dictionary ! n)"
      using n len by (simp add: hyd obj_get_set)
    have l: "length (dictionary ! n) = length (filter truthy (identifiersDataBatch (roots ! n) rel))"
      using each [OF n] by (rule identifiers_batch_length)
    show ?thesis
    proof (intro conjI impI)
      assume "isToManyRelation (roots ! n) rel"
      then show "obj_get (hydrated ! n) rel = JArr (map (related_record fetched) (dictionary ! n))"
        by (simp add: v assigned_relation_def)
    next
      show "length (dictionary ! n) = length (filter truthy (identifiersDataBatch (roots ! n) rel))"
        by (rule l)
    next
      assume a: "\<not> isToManyRelation (roots ! n) rel \<and> truthy (obj_get (roots ! n) rel)"
      then have "length (dictionary ! n) = 1"
        using l by (simp add: identifiersDataBatch_single)
      then obtain identifiers where d: "dictionary ! n = [identifiers]"
        by (cases "dictionary ! n") auto
      with a show "\<exists>identifiers. dictionary ! n = [identifiers]
                     \<and> obj_get (hydrated ! n) rel = related_record fetched identifiers"
        by (simp add: v assigned_relation_def)
    next
      assume a: "\<not> isToManyRelation (roots ! n) rel \<and> \<not> truthy (obj_get (roots ! n) rel)"
      then have "dictionary ! n = []"
        using l by (simp add: identifiersDataBatch_single)
      with a show "obj_get (hydrated ! n) rel = JArr []"
        by (simp add: v assigned_relation_def)
    qed
  qed
  from per_root have every: "\<forall>n < length roots.
               (isToManyRelation (roots ! n) rel \<longrightarrow>
                  obj_get (hydrated ! n) rel =
                    JArr (map (related_record fetched) (dictionary ! n))
                  \<and> length (dictionary ! n) =
                      length (filter truthy (identifiersDataBatch (roots ! n) rel)))
             \<and> (\<not> isToManyRelation (roots ! n) rel \<and> truthy (obj_get (roots ! n) rel) \<longrightarrow>
                  (\<exists>identifiers. dictionary ! n = [identifiers]
                     \<and> obj_get (hydrated ! n) rel = related_record fetched identifiers))
             \<and> (\<not> isToManyRelation (roots ! n) rel \<and> \<not> truthy (obj_get (roots ! n) rel) \<longrightarrow>
                  obj_get (hydrated ! n) rel = JArr [])"
    by blast
  let ?call = "\<lparr>call_relation = rel, call_entity = obj_get options ''entityName'',
         call_identifiers = map JSON_parse (new_Set (map canonical (concat dictionary))),
         call_selections = selected\<rparr>"
  have g': "service_get svc (call_identifiers ?call) (call_selections ?call) = Inr fetched"
    using g by simp
  show ?thesis
    apply (rule exI [of _ ?call], rule exI [of _ fetched], rule exI [of _ dictionary])
    apply (intro conjI)
         apply (rule calls)
        apply (rule g')
       apply (rule c)
      apply (rule len)
     apply (rule hyd)
    apply (rule every)
    done
qed

theorem hydrate_assigns_related_records_witness:
  "outcome (hydrateSingleRelation shop_env order_schema orders ''customer'' customer_options)
     = Inr ([[(''id'', JNum 1),
              (''customer'', JObj [(''id'', JStr ''c1''), (''name'', JStr ''Ann'')])],
             [(''id'', JNum 2),
              (''customer'', JObj [(''id'', JStr ''c1''), (''name'', JStr ''Ann'')])],
             [(''id'', JNum 3),
              (''customer'', JObj [(''id'', JStr ''c2''), (''name'', JStr ''Bob'')])]],
            [(''entityName'', JStr ''Customer''),
             (''attributes'', JArr [JStr ''name'', JStr ''id''])])
   \<and> (\<exists>call. fetch_calls (hydrateSingleRelation shop_env order_schema orders ''customer''
                   customer_options) = [call])"
proof -
  have svc: "getEntityServiceByEntityName shop_env (obj_get customer_options ''entityName'')
               = Some customer_service"
    by (simp add: shop_env_def customer_options_def obj_get_def)
  have att: "truthy (obj_get (attributes order_schema) ''customer'')"
    by (simp add: order_schema_def obj_get_def)
  have rel: "truthy (js_get_opt (obj_get (attributes order_schema) ''customer'') ''relation'')"
    by (simp add: order_schema_def obj_get_def js_get_opt_def)
  have out: "outcome (hydrateSingleRelation shop_env order_schema orders ''customer''
                        customer_options)
     = Inr ([[(''id'', JNum 1),
              (''customer'', JObj [(''id'', JStr ''c1''), (''name'', JStr ''Ann'')])],
             [(''id'', JNum 2),
              (''customer'', JObj [(''id'', JStr ''c1''), (''name'', JStr ''Ann'')])],
             [(''id'', JNum 3),
              (''customer'', JObj [(''id'', JStr ''c2''), (''name'', JStr ''Bob'')])]],
            [(''entityName'', JStr ''Customer''),
             (''attributes'', JArr [JStr ''name'', JStr ''id''])])"
    by code_simp
  from hydrate_assigns_related_records [OF out svc att rel]
  have "\<exists>call. fetch_calls (hydrateSingleRelation shop_env order_schema orders ''customer''
                   customer_options) = [call]"
    by blast
  with out show ?thesis by (rule conjI)
qed

text \<open>The claim C4 fails on the scenario as the spec lists it, where hydration throws
  before any fetch, and on an order whose customer is \<^verbatim>\<open>null\<close>, which receives a sequence
  for its single value.\<close>

theorem hydrate_assigns_related_records_counterexample:
  "hydrateSingleRelation shop_env order_schema spec_orders ''customer'' customer_options
     = \<lparr>fetch_calls = [], logged_warnings = [],
        outcome = Inl (TypeError ''Cannot convert undefined or null to object'')\<rparr>
   \<and> \<not> isToManyRelation (orders_one_null ! 1) ''customer''
   \<and> map_sum id (\<lambda>p. map (\<lambda>r. obj_get r ''customer'') (fst p))
        (outcome (hydrateSingleRelation shop_env order_schema orders_one_null ''customer''
                    customer_options))
     = Inr [JObj [(''id'', JStr ''c1''), (''name'', JStr ''Ann'')], JArr []]"
  by code_simp

section \<open>Properties of the IO-schema builder\<close>

lemma obj_get_obj_assign:
  "obj_get (obj_assign a b) k = (case map_of (rev b) k of None \<Rightarrow> obj_get a k | Some v \<Rightarrow> v)"
proof (induction b arbitrary: a)
  case Nil
  then show ?case by (simp add: obj_assign_def)
next
  case (Cons kv b)
  obtain k' v' where kv: "kv = (k', v')" by (cases kv)
  have "obj_get (obj_assign a (kv # b)) k = obj_get (obj_assign (obj_set a k' v') b) k"
    by (simp add: obj_assign_def kv)
  also have "\<dots> = (case map_of (rev b) k of None \<Rightarrow> obj_get (obj_set a k' v') k | Some v \<Rightarrow> v)"
    by (rule Cons.IH)
  finally show ?case
    by (auto simp: kv obj_get_set map_add_def split: option.splits)
qed

lemma obj_has_obj_assign:
  "obj_has (obj_assign a b) k = (obj_has a k \<or> k \<in> fst ` set b)"
proof (induction b arbitrary: a)
  case Nil
  then show ?case by (simp add: obj_assign_def)
next
  case (Cons kv b)
  obtain k' v' where kv: "kv = (k', v')" by (cases kv)
  have "obj_has (obj_assign a (kv # b)) k = obj_has (obj_assign (obj_set a k' v') b) k"
    by (simp add: obj_assign_def kv)
  also have "\<dots> = (obj_has (obj_set a k' v') k \<or> k \<in> fst ` set b)"
    by (rule Cons.IH)
  finally show ?case
    by (auto simp: kv obj_has_def obj_set_def update_conv')
qed

lemma format_base_hidden:
  "obj_get (format_base hr attId att) ''hidden'' = obj_get (own_entries att) ''hidden''"
  by (simp add: format_base_def Let_def obj_get_set obj_get_obj_assign restMeta_def obj_get_obj_rest)

lemma format_base_flags:
  "obj_get (format_base hr attId att) ''isVisible'' = format_flag att ''isVisible''"
  "obj_get (format_base hr attId att) ''isListable'' = format_flag att ''isListable''"
  "obj_get (format_base hr attId att) ''isCreatable'' = format_flag att ''isCreatable''"
  "obj_get (format_base hr attId att) ''isEditable'' = format_flag att ''isEditable''"
  by (simp_all add: format_base_def Let_def obj_get_set obj_get_obj_assign)

lemma format_base_id:
  "obj_get (format_base hr attId att) ''id'' = JStr attId"
  by (simp add: format_base_def Let_def obj_get_set obj_get_obj_assign)

lemma format_base_required:
  "obj_get (format_base hr attId att) ''required'' = JUndefined"
  by (simp add: format_base_def Let_def obj_get_set obj_get_obj_assign restMeta_def obj_get_obj_rest)

lemma format_base_validations:
  "obj_get (format_base hr attId att) ''validations'' =
     (if truthy (js_or (obj_get (own_entries att) ''validations'') (obj_get (own_entries att) ''required''))
      then JArr [JStr ''required''] else JArr [])"
  by (simp add: format_base_def Let_def obj_get_set obj_get_obj_assign)

lemma converted_top_level:
  assumes "entityAttributeToIOSchemaAttribute hr attId att = Inr f"
      and "k \<noteq> ''properties''" "k \<noteq> ''items''"
  shows "obj_get f k = obj_get (format_base hr attId att) k"
  using assms
  by (subst (asm) entityAttributeToIOSchemaAttribute.simps)
     (auto simp: Let_def obj_get_set split: if_splits jsval.splits sum.splits)


lemma Map_keys_Map_set: "Map_keys (Map_set m k v) = Set_add (Map_keys m) k"
  by (induction m) (auto simp: Map_keys_def Map_set_def Set_add_def)

lemma set_Map_keys_Map_set: "set (Map_keys (Map_set m k v)) = insert k (set (Map_keys m))"
  by (auto simp: Map_keys_Map_set Set_add_def)

lemma ops_loop_keys:
  "ops_loop hr atts m = Inr m' \<Longrightarrow>
     set (Map_keys (out_detail m')) =
       set (Map_keys (out_detail m)) \<union> {n. \<exists>att. (n, att) \<in> set atts \<and> shown_in att ''isVisible''}
   \<and> set (Map_keys (out_list m')) =
       set (Map_keys (out_list m)) \<union> {n. \<exists>att. (n, att) \<in> set atts \<and> shown_in att ''isListable''}
   \<and> set (Map_keys (in_create m')) =
       set (Map_keys (in_create m)) \<union> {n. \<exists>att. (n, att) \<in> set atts \<and> shown_in att ''isCreatable''}
   \<and> set (Map_keys (in_update m')) =
       set (Map_keys (in_update m)) \<union> {n. \<exists>att. (n, att) \<in> set atts \<and> shown_in att ''isEditable''}"
proof (induction atts arbitrary: m)
  case Nil
  then show ?case by simp
next
  case (Cons a atts)
  obtain n att where a: "a = (n, att)" by (cases a)
  from Cons.prems a obtain f where f: "entityAttributeToIOSchemaAttribute hr n att = Inr f"
    by (cases "entityAttributeToIOSchemaAttribute hr n att") auto
  have hid: "obj_get f ''hidden'' = obj_get (own_entries att) ''hidden''"
    using converted_top_level [OF f, of "''hidden''"] by (simp add: format_base_hidden)
  have fl: "obj_get f ''isVisible'' = format_flag att ''isVisible''"
    "obj_get f ''isListable'' = format_flag att ''isListable''"
    "obj_get f ''isCreatable'' = format_flag att ''isCreatable''"
    "obj_get f ''isEditable'' = format_flag att ''isEditable''"
    using converted_top_level [OF f, of "''isVisible''"] converted_top_level [OF f, of "''isListable''"]
      converted_top_level [OF f, of "''isCreatable''"] converted_top_level [OF f, of "''isEditable''"]
    by (simp_all add: format_base_flags)
  show ?case
  proof (cases "truthy (obj_get (own_entries att) ''hidden'')")
    case True
    with Cons.prems a f hid have "ops_loop hr atts m = Inr m'" by simp
    from Cons.IH [OF this] True show ?thesis
      by (auto simp: a shown_in_def)
  next
    case False
    define m4 where "m4 =
       (let m1 = (if truthy (format_flag att ''isVisible'')
                      then m\<lparr>out_detail := Map_set (out_detail m) n f\<rparr>
                      else m);
                m2 = (if truthy (format_flag att ''isListable'')
                      then m1\<lparr>out_list := Map_set (out_list m1) n f\<rparr>
                      else m1);
                m3 = (if truthy (format_flag att ''isCreatable'')
                      then m2\<lparr>in_create := Map_set (in_create m2) n f\<rparr>
                      else m2)
        in (if truthy (format_flag att ''isEditable'')
                      then m3\<lparr>in_update := Map_set (in_update m3) n f\<rparr>
                      else m3))"
    from Cons.prems a f hid fl False have "ops_loop hr atts m4 = Inr m'"
      by (simp add: m4_def Let_def)
    from Cons.IH [OF this] False show ?thesis
      by (auto simp: a shown_in_def m4_def Let_def set_Map_keys_Map_set)
  qed
qed

lemma makeOps_keys:
  assumes "makeOpsDefaultIOSchema hr schema = Inr ops"
  shows "set (Map_keys (get_output ops)) =
           {n. \<exists>att. (n, att) \<in> set (attributes schema) \<and> shown_in att ''isVisible''}
       \<and> set (Map_keys (list_output ops)) =
           {n. \<exists>att. (n, att) \<in> set (attributes schema) \<and> shown_in att ''isListable''}
       \<and> set (Map_keys (create_input ops)) =
           {n. \<exists>att. (n, att) \<in> set (attributes schema) \<and> shown_in att ''isCreatable''}
       \<and> set (Map_keys (update_input ops)) =
           {n. \<exists>att. (n, att) \<in> set (attributes schema) \<and> shown_in att ''isEditable''}"
proof -
  from assms obtain m where
    m: "ops_loop hr (attributes schema)
          \<lparr>out_detail = [], out_list = [], in_create = [], in_update = []\<rparr> = Inr m"
    and o: "get_output ops = out_detail m" "list_output ops = out_list m"
      "create_input ops = in_create m" "update_input ops = in_update m"
    by (auto simp: makeOpsDefaultIOSchema_def Let_def split: sum.splits)
  from ops_loop_keys [OF m] show ?thesis
    by (simp add: o Map_keys_def)
qed

lemma distinct_fst_unique:
  "distinct (map fst xs) \<Longrightarrow> (k, v) \<in> set xs \<Longrightarrow> (k, v') \<in> set xs \<Longrightarrow> v = v'"
  by (metis eq_key_imp_eq_value)

lemma truthy_format_flag: "truthy (format_flag att k) = flag_on att k"
  by (simp add: format_flag_def flag_on_def)

text \<open>
  Claim C3: for a schema whose operation schemas can be built and every attribute of it,
  an attribute marked hidden is in none of \<^verbatim>\<open>get.output\<close>, \<^verbatim>\<open>list.output\<close>,
  \<^verbatim>\<open>create.input\<close> and \<^verbatim>\<open>update.input\<close>, whatever its other flags; any other attribute is
  in \<^verbatim>\<open>get.output\<close> iff visible, in \<^verbatim>\<open>list.output\<close> iff listable, in \<^verbatim>\<open>create.input\<close>
  iff creatable and in \<^verbatim>\<open>update.input\<close> iff editable, each flag being on when unset.
  (Attribute names are the keys of an object, so they are distinct.)
\<close>

theorem hidden_and_flags_decide_operation_schemas:
  assumes ops: "makeOpsDefaultIOSchema hr schema = Inr ops"
      and dist: "distinct (map fst (attributes schema))"
      and att: "(a, att) \<in> set (attributes schema)"
  shows "(marked_hidden att \<longrightarrow>
            a \<notin> set (Map_keys (get_output ops)) \<and> a \<notin> set (Map_keys (list_output ops))
          \<and> a \<notin> set (Map_keys (create_input ops)) \<and> a \<notin> set (Map_keys (update_input ops)))
       \<and> (\<not> marked_hidden att \<longrightarrow>
            (a \<in> set (Map_keys (get_output ops)) \<longleftrightarrow> flag_on att ''isVisible'')
          \<and> (a \<in> set (Map_keys (list_output ops)) \<longleftrightarrow> flag_on att ''isListable'')
          \<and> (a \<in> set (Map_keys (create_input ops)) \<longleftrightarrow> flag_on att ''isCreatable'')
          \<and> (a \<in> set (Map_keys (update_input ops)) \<longleftrightarrow> flag_on att ''isEditable''))"
proof -
  have only: "(\<exists>att'. (a, att') \<in> set (attributes schema) \<and> shown_in att' flag)
                \<longleftrightarrow> shown_in att flag" for flag
    using distinct_fst_unique [OF dist att] att by blast
  from makeOps_keys [OF ops] have
    "a \<in> set (Map_keys (get_output ops)) \<longleftrightarrow> shown_in att ''isVisible''"
    "a \<in> set (Map_keys (list_output ops)) \<longleftrightarrow> shown_in att ''isListable''"
    "a \<in> set (Map_keys (create_input ops)) \<longleftrightarrow> shown_in att ''isCreatable''"
    "a \<in> set (Map_keys (update_input ops)) \<longleftrightarrow> shown_in att ''isEditable''"
    by (simp_all add: only)
  then show ?thesis
    by (simp add: shown_in_def marked_hidden_def truthy_format_flag)
qed

theorem hidden_and_flags_witness:
  "\<exists>ops. makeOpsDefaultIOSchema (\<lambda>s. s) thing_schema = Inr ops
     \<and> ''secret'' \<notin> set (Map_keys (get_output ops))
     \<and> ''secret'' \<notin> set (Map_keys (list_output ops))
     \<and> ''secret'' \<notin> set (Map_keys (create_input ops))
     \<and> ''secret'' \<notin> set (Map_keys (update_input ops))
     \<and> ''note'' \<in> set (Map_keys (get_output ops))
     \<and> ''note'' \<notin> set (Map_keys (list_output ops))
     \<and> ''note'' \<in> set (Map_keys (create_input ops))
     \<and> ''note'' \<in> set (Map_keys (update_input ops))"
proof -
  have "case makeOpsDefaultIOSchema (\<lambda>s. s) thing_schema of Inl e \<Rightarrow> False | Inr ops \<Rightarrow> True"
    by code_simp
  then obtain ops where ops: "makeOpsDefaultIOSchema (\<lambda>s. s) thing_schema = Inr ops"
    by (cases "makeOpsDefaultIOSchema (\<lambda>s. s) thing_schema") auto
  have dist: "distinct (map fst (attributes thing_schema))"
    by (simp add: thing_schema_def)
  let ?secret = "JObj [(''type'', JStr ''string''), (''hidden'', JBool True),
                       (''isVisible'', JBool True)]"
  let ?note = "JObj [(''type'', JStr ''string''), (''isListable'', JBool False)]"
  have s: "(''secret'', ?secret) \<in> set (attributes thing_schema)"
    and n: "(''note'', ?note) \<in> set (attributes thing_schema)"
    by (simp_all add: thing_schema_def)
  have hs: "marked_hidden ?secret" and hn: "\<not> marked_hidden ?note"
    by (simp_all add: marked_hidden_def obj_get_def)
  have fn: "flag_on ?note ''isVisible''" "\<not> flag_on ?note ''isListable''"
    "flag_on ?note ''isCreatable''" "flag_on ?note ''isEditable''"
    by (simp_all add: flag_on_def obj_has_def obj_get_def)
  from hidden_and_flags_decide_operation_schemas [OF ops dist s] hs
    hidden_and_flags_decide_operation_schemas [OF ops dist n] hn fn ops
  show ?thesis by blast
qed

section \<open>Properties of the access-pattern resolver\<close>

lemma foldl_Set_add_append: "foldl Set_add acc (xs @ ys) = foldl Set_add (foldl Set_add acc xs) ys"
  by simp

lemma index_attribute_props:
  assumes "index_attribute hr schema n = Inr f"
  shows "obj_get f ''id'' = JStr n \<and> obj_get f ''required'' = JUndefined
       \<and> obj_get f ''validations'' = JArr [JStr ''required'']"
proof -
  let ?att = "JObj (obj_assign (own_entries (obj_get (attributes schema) n)) [(''required'', JBool True)])"
  from assms have c: "entityAttributeToIOSchemaAttribute hr n ?att = Inr f"
    by (simp add: index_attribute_def)
  have req: "obj_get (own_entries ?att) ''required'' = JBool True"
    by (simp add: obj_get_obj_assign)
  have "obj_get f ''validations'' = JArr [JStr ''required'']"
    using converted_top_level [OF c, of "''validations''"] req
    by (simp add: format_base_validations js_or_def)
  moreover have "obj_get f ''id'' = JStr n"
    using converted_top_level [OF c, of "''id''"] by (simp add: format_base_id)
  moreover have "obj_get f ''required'' = JUndefined"
    using converted_top_level [OF c, of "''required''"] by (simp add: format_base_required)
  ultimately show ?thesis by simp
qed

lemma map_of_Map_set: "map_of (Map_set m k v) = (map_of m)(k \<mapsto> v)"
  by (simp add: Map_set_def update_conv')

lemma index_attributes_loop_spec:
  "index_attributes_loop hr schema ns m = Inr m' \<Longrightarrow>
     Map_keys m' = foldl Set_add (Map_keys m) ns
   \<and> (\<forall>k. map_of m' k =
          (if k \<in> set ns then (case index_attribute hr schema k of Inr f \<Rightarrow> Some f | Inl e \<Rightarrow> None)
           else map_of m k))"
proof (induction ns arbitrary: m)
  case Nil
  then show ?case by simp
next
  case (Cons n ns)
  from Cons.prems obtain f where f: "index_attribute hr schema n = Inr f"
    and r: "index_attributes_loop hr schema ns (Map_set m n f) = Inr m'"
    by (cases "index_attribute hr schema n") auto
  from Cons.IH [OF r] f show ?case
    by (auto simp: Map_keys_Map_set map_of_Map_set)
qed

lemma index_attributes_spec:
  assumes "index_attributes hr schema idx = Inr m"
  shows "Map_keys m = new_Set (composite_names idx)
       \<and> (\<forall>k f. (k, f) \<in> set m \<longrightarrow>
             index_attribute hr schema k = Inr f
           \<and> obj_get f ''id'' = JStr k \<and> obj_get f ''required'' = JUndefined
           \<and> obj_get f ''validations'' = JArr [JStr ''required''])"
proof -
  let ?sk = "case sk_composite idx of None \<Rightarrow> [] | Some sk \<Rightarrow> sk"
  from assms obtain m1 where
    m1: "index_attributes_loop hr schema (pk_composite idx) [] = Inr m1"
    and m: "index_attributes_loop hr schema ?sk m1 = Inr m"
    by (auto simp: index_attributes_def split: sum.splits)
  note s1 = index_attributes_loop_spec [OF m1]
  note s2 = index_attributes_loop_spec [OF m]
  have keys: "Map_keys m = new_Set (composite_names idx)"
    using s1 s2 by (simp add: new_Set_def composite_names_def Map_keys_def)
  have dist: "distinct (map fst m)"
    using keys distinct_new_Set [of "composite_names idx"] by (simp add: Map_keys_def)
  have vals: "index_attribute hr schema k = Inr f" if "(k, f) \<in> set m" for k f
  proof -
    from that dist have mo: "map_of m k = Some f" by simp
    have "k \<in> set (composite_names idx)"
      using that keys set_new_Set [of "composite_names idx"]
      by (metis Map_keys_def fst_conv image_eqI set_map)
    then consider "k \<in> set ?sk" | "k \<notin> set ?sk" "k \<in> set (pk_composite idx)"
      by (auto simp: composite_names_def)
    then show ?thesis
    proof cases
      case 1
      with s2 mo show ?thesis
        by (cases "index_attribute hr schema k") (auto split: if_splits)
    next
      case 2
      with s1 s2 mo show ?thesis
        by (cases "index_attribute hr schema k") (auto split: if_splits)
    qed
  qed
  show ?thesis
    using keys vals index_attribute_props by blast
qed

lemma access_patterns_loop_spec:
  "access_patterns_loop hr schema idxs aps = Inr aps' \<Longrightarrow> distinct (map fst idxs) \<Longrightarrow>
     Map_keys aps' = foldl Set_add (Map_keys aps) (map fst idxs)
   \<and> (\<forall>k. map_of aps' k =
          (case map_of idxs k of
             Some idx \<Rightarrow> (case index_attributes hr schema idx of Inr m \<Rightarrow> Some (Some m) | Inl e \<Rightarrow> None)
           | None \<Rightarrow> map_of aps k))
   \<and> (\<forall>k idx. (k, idx) \<in> set idxs \<longrightarrow> (\<exists>m. index_attributes hr schema idx = Inr m))"
proof (induction idxs arbitrary: aps)
  case Nil
  then show ?case by simp
next
  case (Cons i idxs)
  obtain n idx where i: "i = (n, idx)" by (cases i)
  from Cons.prems i obtain m where m: "index_attributes hr schema idx = Inr m"
    and r: "access_patterns_loop hr schema idxs (Map_set aps n (Some m)) = Inr aps'"
    by (cases "index_attributes hr schema idx") auto
  from Cons.prems i have d: "distinct (map fst idxs)" and nn: "n \<notin> fst ` set idxs" by auto
  from nn have none: "map_of idxs n = None" by (simp add: map_of_eq_None_iff)
  from Cons.IH [OF r d] m none show ?case
    by (auto simp: i Map_keys_Map_set map_of_Map_set split: option.splits)
qed

lemma new_Set_distinct: "distinct xs \<Longrightarrow> new_Set xs = xs"
proof -
  have "distinct (acc @ xs) \<Longrightarrow> foldl Set_add acc xs = acc @ xs" for acc
    by (induction xs arbitrary: acc) (auto simp: Set_add_def)
  from this [of "[]"] show "distinct xs \<Longrightarrow> new_Set xs = xs" by (simp add: new_Set_def)
qed

lemma set_Map_set:
  "(k', v') \<in> set (Map_set m k v) \<Longrightarrow> (k', v') \<in> set m \<or> (k' = k \<and> v' = v)"
  by (induction m) (auto simp: Map_set_def split: if_splits)

lemma access_patterns_resolved:
  assumes res: "makeEntityAccessPatternsSchema hr schema = Inr aps"
      and dist: "distinct (map fst (indexes schema))"
  shows "(\<forall>name idx. (name, idx) \<in> set (indexes schema) \<longrightarrow>
            (\<exists>m. Map_get aps name = Some (Some m) \<and> index_attributes hr schema idx = Inr m))
       \<and> Map_get aps ''primary'' \<noteq> None
       \<and> (\<forall>n idx rest. indexes schema = (n, idx) # rest \<and> ''primary'' \<notin> fst ` set (indexes schema)
             \<longrightarrow> Map_get aps ''primary'' = Map_get aps n)
       \<and> (\<forall>k v. (k, v) \<in> set aps \<longrightarrow>
             (k = ''primary'' \<and> v = None \<and> indexes schema = [])
           \<or> (\<exists>idx m. idx \<in> snd ` set (indexes schema) \<and> v = Some m
                  \<and> index_attributes hr schema idx = Inr m))"
proof -
  from res obtain aps0 where
    l: "access_patterns_loop hr schema (indexes schema) [] = Inr aps0"
    and a: "aps = (if Map_get aps0 ''primary'' = None
                   then Map_set aps0 ''primary'' (first_value aps0) else aps0)"
    by (auto simp: makeEntityAccessPatternsSchema_def split: sum.splits)
  from access_patterns_loop_spec [OF l dist]
  have keys: "Map_keys aps0 = map fst (indexes schema)"
    and vals: "\<And>k. map_of aps0 k =
          (case map_of (indexes schema) k of
             Some idx \<Rightarrow> (case index_attributes hr schema idx of
                            Inr m \<Rightarrow> Some (Some m) | Inl e \<Rightarrow> None)
           | None \<Rightarrow> None)"
    and ok: "\<And>k idx. (k, idx) \<in> set (indexes schema) \<Longrightarrow> \<exists>m. index_attributes hr schema idx = Inr m"
    using new_Set_distinct [OF dist]
    by (auto simp: new_Set_def Map_keys_def split: option.splits sum.splits)
  have in0: "\<exists>m. map_of aps0 name = Some (Some m) \<and> index_attributes hr schema idx = Inr m"
    if "(name, idx) \<in> set (indexes schema)" for name idx
  proof -
    from that dist have "map_of (indexes schema) name = Some idx" by simp
    with ok [OF that] vals [of name] show ?thesis by auto
  qed
  have mem0: "\<exists>idx m. idx \<in> snd ` set (indexes schema) \<and> v = Some m
                  \<and> index_attributes hr schema idx = Inr m" if kv: "(k, v) \<in> set aps0" for k v
  proof -
    have d0: "distinct (map fst aps0)" using keys dist by (simp add: Map_keys_def)
    with kv have mo: "map_of aps0 k = Some v" by simp
    with vals [of k] obtain idx where i: "map_of (indexes schema) k = Some idx"
      by (cases "map_of (indexes schema) k") auto
    then have "(k, idx) \<in> set (indexes schema)" by (rule map_of_SomeD)
    with in0 [OF this] mo show ?thesis by force
  qed
  show ?thesis
  proof (cases "Map_get aps0 ''primary'' = None")
    case False
    with a have e: "aps = aps0" by simp
    have p: "''primary'' \<in> fst ` set (indexes schema)"
    proof (rule ccontr)
      assume "''primary'' \<notin> fst ` set (indexes schema)"
      then have "map_of (indexes schema) ''primary'' = None" by (simp add: map_of_eq_None_iff)
      with vals [of "''primary''"] False show False by (simp add: Map_get_def)
    qed
    show ?thesis
      using in0 False p mem0 by (auto simp: e Map_get_def)
  next
    case True
    with a have e: "aps = Map_set aps0 ''primary'' (first_value aps0)" by simp
    have np: "''primary'' \<notin> fst ` set (indexes schema)"
    proof
      assume "''primary'' \<in> fst ` set (indexes schema)"
      then obtain idx where "(''primary'', idx) \<in> set (indexes schema)" by auto
      from in0 [OF this] True show False by (auto simp: Map_get_def)
    qed
    have c1: "\<exists>m. Map_get aps name = Some (Some m) \<and> index_attributes hr schema idx = Inr m"
      if "(name, idx) \<in> set (indexes schema)" for name idx
    proof -
      from that np have "name \<noteq> ''primary''" by force
      with in0 [OF that] show ?thesis by (simp add: e Map_get_def map_of_Map_set)
    qed
    have c2: "Map_get aps ''primary'' \<noteq> None"
      by (simp add: e Map_get_def map_of_Map_set)
    have c3: "Map_get aps ''primary'' = Map_get aps n" if i: "indexes schema = (n, idx) # rest" for n idx rest
    proof -
      from keys i obtain v r where a0: "aps0 = (n, v) # r"
        by (cases aps0) (auto simp: Map_keys_def)
      from i np have "n \<noteq> ''primary''" by auto
      then show ?thesis
        by (simp add: e a0 Map_get_def map_of_Map_set first_value_def)
    qed
    have c4: "(k = ''primary'' \<and> v = None \<and> indexes schema = [])
           \<or> (\<exists>idx m. idx \<in> snd ` set (indexes schema) \<and> v = Some m
                  \<and> index_attributes hr schema idx = Inr m)" if kv: "(k, v) \<in> set aps" for k v
    proof -
      from kv e have "(k, v) \<in> set aps0 \<or> (k = ''primary'' \<and> v = first_value aps0)"
        by (auto dest: set_Map_set)
      then show ?thesis
      proof
        assume "(k, v) \<in> set aps0"
        from mem0 [OF this] show ?thesis by blast
      next
        assume kp: "k = ''primary'' \<and> v = first_value aps0"
        show ?thesis
        proof (cases aps0)
          case Nil
          with keys have "indexes schema = []" by (simp add: Map_keys_def)
          with kp Nil show ?thesis by (simp add: first_value_def)
        next
          case (Cons x xs)
          obtain k0 v0 where x: "x = (k0, v0)" by (cases x)
          with Cons have "(k0, v0) \<in> set aps0" by simp
          from mem0 [OF this] kp Cons x show ?thesis by (simp add: first_value_def)
        qed
      qed
    qed
    show ?thesis using c1 c2 c3 c4 by blast
  qed
qed

text \<open>
  Claim C2: for a schema whose access patterns can be resolved, every declared index is
  mapped to its partition-key composite attributes followed by its sort-key composite
  attributes (an attribute named twice is kept once, where it first stands). Each of them
  is the IO-schema attribute of the schema attribute with \<^verbatim>\<open>required\<close> forced to true,
  under its own name, and so carries the validation \<^verbatim>\<open>required\<close> whatever the schema
  says of it. The map always has a \<^verbatim>\<open>primary\<close> entry, and when no index is named
  \<^verbatim>\<open>primary\<close> it is the entry of the first declared index. (Index names are the keys
  of an object, so they are distinct.)
\<close>

theorem access_patterns_of_indexes:
  assumes res: "makeEntityAccessPatternsSchema hr schema = Inr aps"
      and dist: "distinct (map fst (indexes schema))"
  shows "(\<forall>name idx. (name, idx) \<in> set (indexes schema) \<longrightarrow>
            (\<exists>m. Map_get aps name = Some (Some m)
               \<and> Map_keys m = new_Set (composite_names idx)
               \<and> (distinct (composite_names idx) \<longrightarrow> Map_keys m = composite_names idx)
               \<and> (\<forall>k f. (k, f) \<in> set m \<longrightarrow>
                      index_attribute hr schema k = Inr f
                    \<and> entityAttributeToIOSchemaAttribute hr k
                         (JObj (obj_assign (own_entries (obj_get (attributes schema) k))
                                  [(''required'', JBool True)])) = Inr f
                    \<and> obj_get f ''id'' = JStr k
                    \<and> obj_get f ''validations'' = JArr [JStr ''required''])))
       \<and> Map_get aps ''primary'' \<noteq> None
       \<and> (\<forall>n idx rest. indexes schema = (n, idx) # rest
               \<and> ''primary'' \<notin> fst ` set (indexes schema)
             \<longrightarrow> Map_get aps ''primary'' = Map_get aps n)"
proof -
  note r = access_patterns_resolved [OF res dist]
  have "\<exists>m. Map_get aps name = Some (Some m)
               \<and> Map_keys m = new_Set (composite_names idx)
               \<and> (distinct (composite_names idx) \<longrightarrow> Map_keys m = composite_names idx)
               \<and> (\<forall>k f. (k, f) \<in> set m \<longrightarrow>
                      index_attribute hr schema k = Inr f
                    \<and> entityAttributeToIOSchemaAttribute hr k
                         (JObj (obj_assign (own_entries (obj_get (attributes schema) k))
                                  [(''required'', JBool True)])) = Inr f
                    \<and> obj_get f ''id'' = JStr k
                    \<and> obj_get f ''validations'' = JArr [JStr ''required''])"
    if "(name, idx) \<in> set (indexes schema)" for name idx
  proof -
    from r that obtain m where g: "Map_get aps name = Some (Some m)"
      and i: "index_attributes hr schema idx = Inr m"
      by blast
    from index_attributes_spec [OF i] g show ?thesis
      by (auto simp: new_Set_distinct index_attribute_def)
  qed
  with r show ?thesis by blast
qed

theorem access_patterns_of_indexes_witness:
  "\<exists>aps. makeEntityAccessPatternsSchema (\<lambda>s. s) thing_schema = Inr aps
     \<and> (\<exists>m f. Map_get aps ''byTenant'' = Some (Some m)
            \<and> Map_keys m = [''tenantId'', ''entityId'']
            \<and> map_of m ''tenantId'' = Some f
            \<and> obj_get f ''id'' = JStr ''tenantId''
            \<and> obj_get f ''validations'' = JArr [JStr ''required''])
     \<and> obj_get (own_entries (obj_get (attributes thing_schema) ''tenantId'')) ''required''
          = JUndefined
     \<and> Map_get aps ''primary'' \<noteq> None
     \<and> Map_get aps ''primary'' = Map_get aps ''byId''"
proof -
  have "case makeEntityAccessPatternsSchema (\<lambda>s. s) thing_schema of
          Inl e \<Rightarrow> False | Inr aps \<Rightarrow> True"
    by code_simp
  then obtain aps where aps: "makeEntityAccessPatternsSchema (\<lambda>s. s) thing_schema = Inr aps"
    by (cases "makeEntityAccessPatternsSchema (\<lambda>s. s) thing_schema") auto
  have dist: "distinct (map fst (indexes thing_schema))"
    by (simp add: thing_schema_def)
  let ?byTenant = "\<lparr>pk_composite = [''tenantId''], sk_composite = Some [''entityId'']\<rparr>"
  have t: "(''byTenant'', ?byTenant) \<in> set (indexes thing_schema)"
    by (simp add: thing_schema_def)
  have names: "composite_names ?byTenant = [''tenantId'', ''entityId'']"
    by (simp add: composite_names_def)
  have first: "indexes thing_schema =
      (''byId'', \<lparr>pk_composite = [''entityId''], sk_composite = None\<rparr>)
        # [(''byTenant'', ?byTenant)]
      \<and> ''primary'' \<notin> fst ` set (indexes thing_schema)"
    by (simp add: thing_schema_def)
  have unmarked:
    "obj_get (own_entries (obj_get (attributes thing_schema) ''tenantId'')) ''required''
       = JUndefined"
    by (simp add: thing_schema_def obj_get_def)
  note th = access_patterns_of_indexes [OF aps dist]
  from th t obtain m where g: "Map_get aps ''byTenant'' = Some (Some m)"
    and d: "distinct (composite_names ?byTenant) \<longrightarrow> Map_keys m = composite_names ?byTenant"
    and each: "\<And>k f. (k, f) \<in> set m \<Longrightarrow>
                 obj_get f ''id'' = JStr k \<and> obj_get f ''validations'' = JArr [JStr ''required'']"
    by blast
  from d have keys: "Map_keys m = [''tenantId'', ''entityId'']" by (simp add: names)
  then have "''tenantId'' \<in> fst ` set m" by (simp add: Map_keys_def flip: set_map)
  then obtain f where f: "map_of m ''tenantId'' = Some f"
    by (cases "map_of m ''tenantId''") (auto simp: map_of_eq_None_iff)
  then have "(''tenantId'', f) \<in> set m" by (rule map_of_SomeD)
  from each [OF this] g keys f
  have a: "\<exists>m f. Map_get aps ''byTenant'' = Some (Some m)
            \<and> Map_keys m = [''tenantId'', ''entityId'']
            \<and> map_of m ''tenantId'' = Some f
            \<and> obj_get f ''id'' = JStr ''tenantId''
            \<and> obj_get f ''validations'' = JArr [JStr ''required'']"
    by blast
  from th have b: "Map_get aps ''primary'' \<noteq> None" by blast
  from th first have c: "Map_get aps ''primary'' = Map_get aps ''byId''" by blast
  from aps a unmarked b c show ?thesis by blast
qed

section \<open>Properties of identifier extraction\<close>

lemma attributes_of_pattern_formatted:
  "formatted_pattern m \<Longrightarrow>
   attributes_of_pattern m = map (\<lambda>k. (JStr k, False)) (Map_keys m)"
  by (induction m) (auto simp: formatted_pattern_def Map_keys_def)

lemma identifier_attributes_formatted:
  "identifier_attributes aps ctx = Inr idAtts \<Longrightarrow>
   (\<forall>n m. (n, Some m) \<in> set aps \<longrightarrow> formatted_pattern m) \<Longrightarrow>
   idAtts = map (\<lambda>k. (JStr k, False)) (identifier_names aps ctx)"
proof (induction aps arbitrary: idAtts)
  case Nil
  then show ?case by simp
next
  case (Cons a aps)
  obtain n v where a: "a = (n, v)" by (cases a)
  show ?case
  proof (cases "selected_pattern ctx n")
    case False
    with Cons a show ?thesis by (auto simp: selected_pattern_def)
  next
    case True
    with Cons.prems a obtain m others where v: "v = Some m"
      and o: "identifier_attributes aps ctx = Inr others"
      and i: "idAtts = attributes_of_pattern m @ others"
      by (auto simp: selected_pattern_def split: option.splits sum.splits)
    from Cons.prems a v have "formatted_pattern m" by auto
    with Cons.IH [OF o] Cons.prems(2) i True a v show ?thesis
      by (simp add: attributes_of_pattern_formatted)
  qed
qed

lemma map_of_obj_set: "map_of (obj_set ob k v) = (map_of ob)(k \<mapsto> v)"
  by (simp add: obj_set_def update_conv')

lemma extract_one_step:
  "\<not> nullish x \<Longrightarrow> \<not> obj_has (own_props x) ''hasOwnProperty'' \<Longrightarrow>
   extract_one primary x ((JStr n, False) # rest) (acc, w) =
   extract_one primary x rest
     (if obj_has (own_props x) n then obj_set acc n (obj_get (own_props x) n)
      else if primary = Some n \<and> obj_has (own_props x) ''id''
      then obj_set acc n (obj_get (own_props x) ''id'')
      else acc, w)"
  by (cases primary) (simp_all add: hasOwnProperty_def)

lemma extract_one_spec:
  assumes "\<not> nullish x" "\<not> obj_has (own_props x) ''hasOwnProperty''"
  shows "\<exists>acc'. extract_one primary x (map (\<lambda>k. (JStr k, False)) names) (acc, w) = Inr (acc', w)
     \<and> (\<forall>a. map_of acc' a =
          (case extracted primary (own_props x) names a of Some v \<Rightarrow> Some v | None \<Rightarrow> map_of acc a))"
proof (induction names arbitrary: acc)
  case Nil
  then show ?case by (simp add: extracted_def)
next
  case (Cons n names)
  define acc2 where "acc2 =
     (if obj_has (own_props x) n then obj_set acc n (obj_get (own_props x) n)
      else if primary = Some n \<and> obj_has (own_props x) ''id''
      then obj_set acc n (obj_get (own_props x) ''id'')
      else acc)"
  from Cons.IH [of acc2] obtain acc' where
    r: "extract_one primary x (map (\<lambda>k. (JStr k, False)) names) (acc2, w) = Inr (acc', w)"
    and m: "\<And>a. map_of acc' a =
          (case extracted primary (own_props x) names a of Some v \<Rightarrow> Some v | None \<Rightarrow> map_of acc2 a)"
    by blast
  have e: "extract_one primary x (map (\<lambda>k. (JStr k, False)) (n # names)) (acc, w) = Inr (acc', w)"
    using extract_one_step [OF assms, of primary n "map (\<lambda>k. (JStr k, False)) names" acc w] r
    by (simp add: acc2_def)
  have "map_of acc' a =
          (case extracted primary (own_props x) (n # names) a of Some v \<Rightarrow> Some v | None \<Rightarrow> map_of acc a)" for a
  proof (cases "a = n")
    case True
    have "map_of acc2 n =
       (if obj_has (own_props x) n then Some (obj_get (own_props x) n)
        else if primary = Some n \<and> obj_has (own_props x) ''id''
        then Some (obj_get (own_props x) ''id'') else map_of acc n)"
      by (simp add: acc2_def map_of_obj_set)
    then show ?thesis
      using m [of n] unfolding True
      by (auto simp: extracted_def split: option.splits if_splits)
  next
    case False
    then have "extracted primary (own_props x) (n # names) a = extracted primary (own_props x) names a"
      by (simp add: extracted_def)
    moreover have "map_of acc2 a = map_of acc a"
      using False by (simp add: acc2_def map_of_obj_set)
    ultimately show ?thesis
      using m [of a] by (simp split: option.splits)
  qed
  with e show ?case by blast
qed

lemma extract_one_no_warning:
  "extract_one primary x (map (\<lambda>k. (JStr k, False)) names) (acc, w) = Inr (acc', w') \<Longrightarrow> w' = w"
  by (induction names arbitrary: acc) (auto split: sum.splits if_splits)

lemma extract_batch_no_warning:
  "fst (extract_batch primary (map (\<lambda>k. (JStr k, False)) names) inputs w) = w"
proof (induction inputs arbitrary: w)
  case Nil
  then show ?case by simp
next
  case (Cons x xs)
  show ?case
  proof (cases "extract_one primary x (map (\<lambda>k. (JStr k, False)) names) ([], w)")
    case (Inl e)
    then show ?thesis by simp
  next
    case (Inr p)
    obtain i w1 where p: "p = (i, w1)" by (cases p)
    with Inr have "w1 = w" by (auto dest: extract_one_no_warning)
    with Inr p Cons.IH [of w] show ?thesis
      by (cases "extract_batch primary (map (\<lambda>k. (JStr k, False)) names) xs w")
         (auto split: sum.splits)
  qed
qed

lemma resolved_patterns_formatted:
  assumes aps: "makeEntityAccessPatternsSchema hr schema = Inr aps"
      and dist: "distinct (map fst (indexes schema))"
  shows "\<forall>n m. (n, Some m) \<in> set aps \<longrightarrow> formatted_pattern m"
proof (intro allI impI)
  fix n m
  assume "(n, Some m) \<in> set aps"
  with access_patterns_resolved [OF aps dist]
  obtain idx where "index_attributes hr schema idx = Inr m" by blast
  from index_attributes_spec [OF this] show "formatted_pattern m"
    by (auto simp: formatted_pattern_def list_all_iff)
qed

lemma identifier_attributes_returns:
  "\<forall>k v. (k, v) \<in> set aps \<longrightarrow> v \<noteq> None \<Longrightarrow> \<exists>i. identifier_attributes aps ctx = Inr i"
proof (induction aps)
  case Nil
  then show ?case by simp
next
  case (Cons a aps)
  obtain n v where a: "a = (n, v)" by (cases a)
  from Cons.prems a obtain m where v: "v = Some m" by (cases v) auto
  from Cons obtain i where "identifier_attributes aps ctx = Inr i" by auto
  with a v show ?case by auto
qed

lemma extract_batch_objects:
  "\<forall>inp \<in> set inps. \<not> obj_has inp ''hasOwnProperty'' \<Longrightarrow>
   \<exists>batch. extract_batch primary (map (\<lambda>k. (JStr k, False)) names) (map JObj inps) w
              = (w, Inr batch)
     \<and> list_all2 (\<lambda>inp identifiers. \<forall>a. map_of identifiers a = extracted primary inp names a)
         inps batch"
proof (induction inps)
  case Nil
  then show ?case by simp
next
  case (Cons inp inps)
  have nn: "\<not> nullish (JObj inp)" by simp
  have own: "\<not> obj_has (own_props (JObj inp)) ''hasOwnProperty''"
    using Cons.prems by simp
  from extract_one_spec [OF nn own, of primary names "[]" w]
  obtain i where i: "extract_one primary (JObj inp) (map (\<lambda>k. (JStr k, False)) names) ([], w) = Inr (i, w)"
    and m0: "\<And>a. map_of i a =
      (case extracted primary inp names a of Some v \<Rightarrow> Some v | None \<Rightarrow> map_of [] a)"
    by auto
  have m: "\<forall>a. map_of i a = extracted primary inp names a"
  proof
    fix a
    show "map_of i a = extracted primary inp names a"
      using m0 [of a] by (cases "extracted primary inp names a") simp_all
  qed
  from Cons.prems have "\<forall>inp \<in> set inps. \<not> obj_has inp ''hasOwnProperty''" by simp
  from Cons.IH [OF this] obtain batch where
    b: "extract_batch primary (map (\<lambda>k. (JStr k, False)) names) (map JObj inps) w = (w, Inr batch)"
    and l: "list_all2 (\<lambda>inp identifiers. \<forall>a. map_of identifiers a = extracted primary inp names a)
         inps batch"
    by blast
  have "extract_batch primary (map (\<lambda>k. (JStr k, False)) names) (map JObj (inp # inps)) w
          = (w, Inr (i # batch))"
    using i b by simp
  with m l show ?case by auto
qed

lemma primary_id_loop_spec:
  "primary_id_loop atts = Inr p \<Longrightarrow>
   p = (case filter (\<lambda>(n, att). truthy (obj_get (own_props att) ''isIdentifier'')) atts of
          [] \<Rightarrow> None
        | (n, att) # others \<Rightarrow> Some n)"
  by (induction atts) (auto split: if_splits)

lemma primary_identifier_spec:
  "getEntityPrimaryIdPropertyName schema = Inr p \<Longrightarrow> p = primary_identifier schema"
  unfolding getEntityPrimaryIdPropertyName_def primary_identifier_def
  by (rule primary_id_loop_spec)

lemma access_patterns_keys:
  assumes res: "makeEntityAccessPatternsSchema hr schema = Inr aps"
      and dist: "distinct (map fst (indexes schema))"
  shows "distinct (map fst aps)
       \<and> set (map fst aps) = insert ''primary'' (fst ` set (indexes schema))"
proof -
  from res obtain aps0 where
    l: "access_patterns_loop hr schema (indexes schema) [] = Inr aps0"
    and a: "aps = (if Map_get aps0 ''primary'' = None
                   then Map_set aps0 ''primary'' (first_value aps0) else aps0)"
    by (auto simp: makeEntityAccessPatternsSchema_def split: sum.splits)
  from access_patterns_loop_spec [OF l dist]
  have k0: "Map_keys aps0 = new_Set (map fst (indexes schema))"
    by (simp add: Map_keys_def new_Set_def)
  have d0: "distinct (Map_keys aps0)" and s0: "set (Map_keys aps0) = fst ` set (indexes schema)"
    unfolding k0 by (simp_all add: distinct_new_Set set_new_Set)
  have none: "Map_get aps0 ''primary'' = None \<longleftrightarrow> ''primary'' \<notin> set (Map_keys aps0)"
    by (simp add: Map_get_def Map_keys_def map_of_eq_None_iff)
  show ?thesis
  proof (cases "Map_get aps0 ''primary'' = None")
    case True
    with a have aps: "aps = Map_set aps0 ''primary'' (first_value aps0)" by simp
    have "Map_keys aps = Map_keys aps0 @ [''primary'']"
      using True none by (simp add: aps Map_keys_Map_set Set_add_def)
    with d0 s0 True none show ?thesis by (auto simp: Map_keys_def)
  next
    case False
    with a have "aps = aps0" by simp
    with d0 s0 False none show ?thesis by (auto simp: Map_keys_def)
  qed
qed

lemma identifier_names_every:
  "ctx = None \<or> ctx = Some [] \<Longrightarrow>
   set (identifier_names aps ctx)
     = (\<Union>(k, v) \<in> set aps. case v of None \<Rightarrow> {} | Some m \<Rightarrow> set (Map_keys m))"
  by (induction aps) (auto simp: selected_pattern_def split: option.splits)

lemma identifier_names_absent:
  "p \<noteq> [] \<Longrightarrow> p \<notin> fst ` set aps \<Longrightarrow> identifier_names aps (Some p) = []"
  by (induction aps) (auto simp: selected_pattern_def)

lemma identifier_names_one:
  "distinct (map fst aps) \<Longrightarrow> p \<noteq> [] \<Longrightarrow>
   identifier_names aps (Some p)
     = (case map_of aps p of Some (Some m) \<Rightarrow> Map_keys m | _ \<Rightarrow> [])"
proof (induction aps)
  case Nil
  then show ?case by simp
next
  case (Cons a aps)
  obtain n v where a: "a = (n, v)" by (cases a)
  show ?case
  proof (cases "n = p")
    case True
    with Cons.prems a have "p \<notin> fst ` set aps" by auto
    from identifier_names_absent [OF Cons.prems(2) this] True a show ?thesis
      by (simp add: selected_pattern_def split: option.splits)
  next
    case False
    with Cons a show ?thesis by (simp add: selected_pattern_def)
  qed
qed

lemma identifier_names_of_schema:
  assumes res: "makeEntityAccessPatternsSchema hr schema = Inr aps"
      and dist: "distinct (map fst (indexes schema))"
  shows "set (identifier_names aps ctx) = identifier_set schema ctx"
proof -
  note r = access_patterns_resolved [OF res dist]
  note keys = access_patterns_keys [OF res dist]
  have entry: "\<exists>m. map_of aps name = Some (Some m) \<and> set (Map_keys m) = set (composite_names idx)"
    if "(name, idx) \<in> set (indexes schema)" for name idx
  proof -
    from r that obtain m where g: "Map_get aps name = Some (Some m)"
      and i: "index_attributes hr schema idx = Inr m"
      by blast
    from index_attributes_spec [OF i] have "set (Map_keys m) = set (composite_names idx)"
      by (simp add: set_new_Set)
    with g show ?thesis by (simp add: Map_get_def)
  qed
  have member: "\<exists>idx \<in> snd ` set (indexes schema). set (Map_keys m) = set (composite_names idx)"
    if "(k, Some m) \<in> set aps" for k m
  proof -
    from r that obtain idx where "idx \<in> snd ` set (indexes schema)"
      and "index_attributes hr schema idx = Inr m"
      by blast
    with index_attributes_spec [of hr schema idx m] show ?thesis
      by (auto simp: set_new_Set)
  qed
  have every: "(\<Union>(k, v) \<in> set aps. case v of None \<Rightarrow> {} | Some m \<Rightarrow> set (Map_keys m))
             = (\<Union>idx \<in> snd ` set (indexes schema). set (composite_names idx))"
  proof (intro set_eqI iffI)
    fix a
    assume "a \<in> (\<Union>(k, v) \<in> set aps. case v of None \<Rightarrow> {} | Some m \<Rightarrow> set (Map_keys m))"
    then obtain k m where "(k, Some m) \<in> set aps" and "a \<in> set (Map_keys m)"
      by (auto split: option.splits)
    with member [of k m] show "a \<in> (\<Union>idx \<in> snd ` set (indexes schema). set (composite_names idx))"
      by auto
  next
    fix a
    assume "a \<in> (\<Union>idx \<in> snd ` set (indexes schema). set (composite_names idx))"
    then obtain name idx where ni: "(name, idx) \<in> set (indexes schema)"
      and ai: "a \<in> set (composite_names idx)"
      by auto
    from entry [OF ni] obtain m where m: "map_of aps name = Some (Some m)"
      and e: "set (Map_keys m) = set (composite_names idx)"
      by blast
    from m have "(name, Some m) \<in> set aps" by (rule map_of_SomeD)
    with e ai show "a \<in> (\<Union>(k, v) \<in> set aps. case v of None \<Rightarrow> {} | Some m \<Rightarrow> set (Map_keys m))"
      by force
  qed
  show ?thesis
  proof (cases "ctx = None \<or> ctx = Some []")
    case True
    have "identifier_set schema ctx
            = (\<Union>idx \<in> snd ` set (indexes schema). set (composite_names idx))"
      using True by (elim disjE) (simp_all add: identifier_set_def)
    with identifier_names_every [OF True, of aps] every show ?thesis by simp
  next
    case False
    then obtain p where ctx: "ctx = Some p" and p: "p \<noteq> []" by (cases ctx) auto
    from keys have d: "distinct (map fst aps)" by simp
    note one = identifier_names_one [OF d p]
    show ?thesis
    proof (cases "map_of (indexes schema) p")
      case (Some idx)
      then have "(p, idx) \<in> set (indexes schema)" by (rule map_of_SomeD)
      from entry [OF this] Some show ?thesis
        by (auto simp: ctx p one identifier_set_def index_named_def)
    next
      case None
      then have notin: "p \<notin> fst ` set (indexes schema)"
        by (simp add: map_of_eq_None_iff)
      show ?thesis
      proof (cases "indexes schema")
        case Nil
        have "v = None" if "(k, v) \<in> set aps" for k v
          using r that Nil by (cases v) auto
        then have "map_of aps p = None \<or> map_of aps p = Some None"
          by (cases "map_of aps p") (auto dest: map_of_SomeD)
        with None Nil show ?thesis
          by (auto simp: ctx p one identifier_set_def index_named_def)
      next
        case (Cons first others)
        obtain n idx where first: "first = (n, idx)" by (cases first)
        show ?thesis
        proof (cases "p = ''primary''")
          case True
          with notin have "''primary'' \<notin> fst ` set (indexes schema)" by simp
          with r Cons first have same_entry: "Map_get aps ''primary'' = Map_get aps n" by blast
          from Cons first have "(n, idx) \<in> set (indexes schema)" by simp
          from entry [OF this] obtain m where m: "map_of aps n = Some (Some m)"
            and e: "set (Map_keys m) = set (composite_names idx)"
            by blast
          from same_entry m have "map_of aps p = Some (Some m)"
            by (simp add: Map_get_def True)
          then have "identifier_names aps (Some p) = Map_keys m" by (simp add: one)
          moreover have "index_named schema p = Some idx"
            using None Cons first True by (simp add: index_named_def)
          ultimately show ?thesis using e p by (simp add: ctx identifier_set_def)
        next
          case False
          with notin keys have "p \<notin> fst ` set aps" by auto
          then have "map_of aps p = None" by (simp add: map_of_eq_None_iff)
          with None Cons first False show ?thesis
            by (auto simp: ctx p one identifier_set_def index_named_def)
        qed
      qed
    qed
  qed
qed

text \<open>
  Claim C5: for a schema whose access patterns resolve (with at least one index) and whose
  primary identifier attribute is found, and for input records that do not shadow
  \<^verbatim>\<open>hasOwnProperty\<close> with a property of their own, \<^verbatim>\<open>extractEntityIdentifiers\<close> gives, for
  an input record and for every record of a batch, the object that holds for each name of
  the resolved identifier set the input's own value, or the value of the input's \<^verbatim>\<open>id\<close>
  when the name is the primary identifier attribute and the input has no such property,
  and nothing else; no warning is logged. The primary identifier attribute is the first
  attribute of the schema flagged \<^verbatim>\<open>isIdentifier\<close>, and the resolved identifier set is
  made of the composite attributes of the schema's indexes (of the one index named by the
  context, if it names one). On \<^verbatim>\<open>{name: "a", id: "123"}\<close> with the primary identifier
  attribute \<^verbatim>\<open>entityId\<close> the result is \<^verbatim>\<open>{entityId: "123"}\<close>.
\<close>

theorem extract_identifiers_copies_with_id_fallback:
  assumes aps: "makeEntityAccessPatternsSchema hr schema = Inr aps"
      and dist: "distinct (map fst (indexes schema))"
      and ne: "indexes schema \<noteq> []"
      and prim: "getEntityPrimaryIdPropertyName schema = Inr primary"
      and own: "\<not> obj_has inp ''hasOwnProperty''"
      and owns: "\<forall>inp \<in> set inps. \<not> obj_has inp ''hasOwnProperty''"
  shows "primary = primary_identifier schema
       \<and> set (identifier_names aps forAccessPattern) = identifier_set schema forAccessPattern
       \<and> (\<exists>identifiers.
            extractEntityIdentifiers hr schema (JObj inp) forAccessPattern
              = ([], Inr (JObj identifiers))
          \<and> (\<forall>a. map_of identifiers a =
                 extracted (primary_identifier schema) inp
                   (identifier_names aps forAccessPattern) a))
       \<and> (\<exists>batch.
            extractEntityIdentifiers hr schema (JArr (map JObj inps)) forAccessPattern
              = ([], Inr (JArr (map JObj batch)))
          \<and> list_all2 (\<lambda>inp identifiers. \<forall>a. map_of identifiers a =
                 extracted (primary_identifier schema) inp
                   (identifier_names aps forAccessPattern) a) inps batch)"
proof -
  let ?names = "identifier_names aps forAccessPattern"
  have p: "primary = primary_identifier schema"
    using prim by (rule primary_identifier_spec)
  have names: "set ?names = identifier_set schema forAccessPattern"
    using aps dist by (rule identifier_names_of_schema)
  have some: "\<forall>k v. (k, v) \<in> set aps \<longrightarrow> v \<noteq> None"
    using access_patterns_resolved [OF aps dist] ne by blast
  then obtain idAtts where ids: "identifier_attributes aps forAccessPattern = Inr idAtts"
    using identifier_attributes_returns by blast
  from identifier_attributes_formatted [OF ids resolved_patterns_formatted [OF aps dist]]
  have idAtts: "idAtts = map (\<lambda>k. (JStr k, False)) ?names" .
  have own1: "\<forall>i \<in> set [inp]. \<not> obj_has i ''hasOwnProperty''" using own by simp
  from extract_batch_objects [OF own1, of primary ?names "[]"]
  obtain i where
    one: "extract_batch primary (map (\<lambda>k. (JStr k, False)) ?names) [JObj inp] [] = ([], Inr [i])"
    and m1: "\<forall>a. map_of i a = extracted primary inp ?names a"
    by (auto simp: list_all2_Cons1)
  from extract_batch_objects [OF owns, of primary ?names "[]"]
  obtain batch where
    many: "extract_batch primary (map (\<lambda>k. (JStr k, False)) ?names) (map JObj inps) []
             = ([], Inr batch)"
    and mm: "list_all2 (\<lambda>inp identifiers. \<forall>a. map_of identifiers a =
                 extracted primary inp ?names a) inps batch"
    by blast
  have e1: "extractEntityIdentifiers hr schema (JObj inp) forAccessPattern = ([], Inr (JObj i))"
    using one by (simp add: extractEntityIdentifiers_def aps ids prim idAtts)
  have e2: "extractEntityIdentifiers hr schema (JArr (map JObj inps)) forAccessPattern
          = ([], Inr (JArr (map JObj batch)))"
    using many by (simp add: extractEntityIdentifiers_def aps ids prim idAtts)
  have c3: "\<exists>identifiers.
            extractEntityIdentifiers hr schema (JObj inp) forAccessPattern
              = ([], Inr (JObj identifiers))
          \<and> (\<forall>a. map_of identifiers a =
                 extracted (primary_identifier schema) inp ?names a)"
    using e1 m1 unfolding p by blast
  have c4: "\<exists>batch.
            extractEntityIdentifiers hr schema (JArr (map JObj inps)) forAccessPattern
              = ([], Inr (JArr (map JObj batch)))
          \<and> list_all2 (\<lambda>inp identifiers. \<forall>a. map_of identifiers a =
                 extracted (primary_identifier schema) inp ?names a) inps batch"
    using e2 mm unfolding p by blast
  from p names c3 c4 show ?thesis by (intro conjI)
qed

theorem extract_identifiers_witness:
  "extractEntityIdentifiers (\<lambda>s. s) item_schema (JObj named_input) None
     = ([], Inr (JObj [(''entityId'', JStr ''123'')]))
   \<and> primary_identifier item_schema = Some ''entityId''
   \<and> getEntityPrimaryIdPropertyName item_schema = Inr (Some ''entityId'')
   \<and> identifier_set item_schema None = {''entityId'', ''tenantId''}
   \<and> \<not> obj_has named_input ''hasOwnProperty''
   \<and> (\<exists>identifiers.
         extractEntityIdentifiers (\<lambda>s. s) item_schema (JObj named_input) None
           = ([], Inr (JObj identifiers))
       \<and> map_of identifiers ''entityId'' = Some (JStr ''123'')
       \<and> map_of identifiers ''tenantId'' = None
       \<and> map_of identifiers ''name'' = None
       \<and> map_of identifiers ''id'' = None)"
proof -
  have "case makeEntityAccessPatternsSchema (\<lambda>s. s) item_schema of
          Inl e \<Rightarrow> False | Inr aps \<Rightarrow> True"
    by code_simp
  then obtain aps where aps: "makeEntityAccessPatternsSchema (\<lambda>s. s) item_schema = Inr aps"
    by (cases "makeEntityAccessPatternsSchema (\<lambda>s. s) item_schema") auto
  have dist: "distinct (map fst (indexes item_schema))"
    and ne: "indexes item_schema \<noteq> []"
    by (simp_all add: item_schema_def)
  have prim: "getEntityPrimaryIdPropertyName item_schema = Inr (Some ''entityId'')"
    by (simp add: getEntityPrimaryIdPropertyName_def item_schema_def obj_get_def)
  have own: "\<not> obj_has named_input ''hasOwnProperty''"
    by (simp add: named_input_def obj_has_def)
  have owns: "\<forall>inp \<in> set []. \<not> obj_has inp ''hasOwnProperty''" by simp
  have iset: "identifier_set item_schema None = {''entityId'', ''tenantId''}"
    by (auto simp: identifier_set_def item_schema_def composite_names_def)
  note th = extract_identifiers_copies_with_id_fallback [OF aps dist ne prim own owns, of None]
  from th have p: "primary_identifier item_schema = Some ''entityId''" by simp
  from th have names: "set (identifier_names aps None) = {''entityId'', ''tenantId''}"
    by (simp add: iset)
  from th obtain identifiers where
    e: "extractEntityIdentifiers (\<lambda>s. s) item_schema (JObj named_input) None
          = ([], Inr (JObj identifiers))"
    and m: "\<And>a. map_of identifiers a =
              extracted (primary_identifier item_schema) named_input (identifier_names aps None) a"
    by blast
  have "map_of identifiers ''entityId'' = Some (JStr ''123'')"
    "map_of identifiers ''tenantId'' = None"
    "map_of identifiers ''name'' = None"
    "map_of identifiers ''id'' = None"
    by (simp_all add: m names p extracted_def named_input_def obj_has_def obj_get_def)
  moreover have "extractEntityIdentifiers (\<lambda>s. s) item_schema (JObj named_input) None
     = ([], Inr (JObj [(''entityId'', JStr ''123'')]))"
    by code_simp
  ultimately show ?thesis using e p prim iset own by blast
qed

lemma extract_rejects_other_values:
  assumes "\<forall>xs. input \<noteq> JArr xs" "\<forall>kvs. input \<noteq> JObj kvs"
  shows "extractEntityIdentifiers hr schema input forAccessPattern
           = ([], Inl (Error ''Input is required and must be an object''))"
  using assms by (cases input) (simp_all add: extractEntityIdentifiers_def)

lemma extract_never_warns:
  assumes dist: "distinct (map fst (indexes schema))"
  shows "fst (extractEntityIdentifiers hr schema input forAccessPattern) = []"
proof (cases "makeEntityAccessPatternsSchema hr schema")
  case (Inl e)
  then show ?thesis by (simp add: extractEntityIdentifiers_def Let_def)
next
  case (Inr aps)
  show ?thesis
  proof (cases "identifier_attributes aps forAccessPattern")
    case (Inl e)
    with Inr show ?thesis by (simp add: extractEntityIdentifiers_def Let_def)
  next
    case ids: (Inr idAtts)
    from identifier_attributes_formatted [OF ids resolved_patterns_formatted [OF Inr dist]]
    have idAtts: "idAtts = map (\<lambda>k. (JStr k, False)) (identifier_names aps forAccessPattern)" .
    show ?thesis
    proof (cases "getEntityPrimaryIdPropertyName schema")
      case (Inl e)
      with Inr ids show ?thesis by (simp add: extractEntityIdentifiers_def Let_def)
    next
      case prim: (Inr primary)
      have fb: "fst (extract_batch primary idAtts inputs []) = []" for inputs
        unfolding idAtts by (rule extract_batch_no_warning)
      have "fst (case extract_batch primary idAtts inputs [] of
                        (warned, Inl e) \<Rightarrow> (warned, Inl e)
                      | (warned, Inr b) \<Rightarrow> (warned, Inr (g b))) = []" for inputs and g :: "obj list \<Rightarrow> jsval"
        using fb [of inputs]
        by (cases "extract_batch primary idAtts inputs []") (auto split: sum.splits)
      then show ?thesis
        by (simp add: extractEntityIdentifiers_def Let_def Inr ids prim)
    qed
  qed
qed

text \<open>
  Claim C6 on the code: the schema marks \<^verbatim>\<open>entityId\<close> required and keys its first index
  by it, and the input has no \<^verbatim>\<open>entityId\<close> and no \<^verbatim>\<open>id\<close>. The extraction returns the
  empty identifier object, as the claim says, but no warning is logged: the attributes
  of the resolved access patterns carry no \<^verbatim>\<open>required\<close> property, so
  \<^verbatim>\<open>att.required == true\<close> is false for every identifier attribute and the branch that
  warns is never taken.
\<close>

theorem required_identifier_absent_logs_nothing:
  "extractEntityIdentifiers (\<lambda>s. s) thing_schema (JObj [(''name'', JStr ''a'')]) None
     = ([], Inr (JObj []))"
  by code_simp

theorem required_identifier_absent_witness:
  "fst (extractEntityIdentifiers (\<lambda>s. s) thing_schema (JObj [(''name'', JStr ''a'')]) None) = []
   \<and> obj_get (own_entries (obj_get (attributes thing_schema) ''entityId'')) ''required''
       = JBool True"
  using required_identifier_absent_logs_nothing
  by (simp add: thing_schema_def obj_get_def)

section \<open>Properties of list and query\<close>

lemma searchable_loop_spec:
  "searchable_loop atts = Inr names \<Longrightarrow>
   names = map fst (filter (\<lambda>(n, att). searchable_attribute att) atts)"
  by (induction atts arbitrary: names)
     (auto simp: searchable_attribute_def truthy_format_flag split: if_splits sum.splits)

lemma list_query_attributes:
  assumes "list_query S schema query = Inr q'" and "q_attributes query = None"
  shows "\<exists>names. getListingAttributeNames (toHumanReadableName S) schema = Inr names
           \<and> q_attributes q' =
               Some (Tree (inferRelationshipsForEntitySelections S schema
                             (parseEntityAttributePaths S names)))"
proof -
  from assms obtain names where
    n: "getListingAttributeNames (toHumanReadableName S) schema = Inr names"
    by (cases "getListingAttributeNames (toHumanReadableName S) schema")
       (auto simp: list_query_def)
  let ?t = "Tree (inferRelationshipsForEntitySelections S schema (parseEntityAttributePaths S names))"
  from assms n have "q_attributes q' = Some ?t"
    by (auto simp: list_query_def Let_def split: if_splits sum.splits option.splits
        text_or_items.splits)
  with n show ?thesis by blast
qed

lemma hydrateRecords_relations:
  "all_outcome (hydrateRecords E schema rels roots) = Inr (recs, rels') \<Longrightarrow>
   map fst rels' = map fst rels"
proof (induction rels arbitrary: roots recs rels')
  case Nil
  then show ?case by simp
next
  case (Cons r rels)
  obtain n opts where r: "r = (n, opts)" by (cases r)
  from Cons.prems show ?case
    unfolding r
    by (auto simp: Let_def split: sum.splits prod.splits if_splits dest: Cons.IH)
qed

lemma map_fst_obj_set:
  "k \<in> fst ` set t \<Longrightarrow> map fst (obj_set t k v) = map fst t"
  by (simp add: obj_set_def update_keys)

lemma with_options_keys:
  "set (map fst rels) \<subseteq> fst ` set t \<Longrightarrow> map fst (with_options t rels) = map fst t"
proof (induction rels arbitrary: t)
  case Nil
  then show ?case by (simp add: with_options_def)
next
  case (Cons r rels)
  obtain k opts where r: "r = (k, opts)" by (cases r)
  from Cons.prems r have k: "k \<in> fst ` set t" and rest: "set (map fst rels) \<subseteq> fst ` set t"
    by auto
  have keys: "map fst (obj_set t k (JObj opts)) = map fst t"
    using k by (rule map_fst_obj_set)
  then have "fst ` set (obj_set t k (JObj opts)) = fst ` set t"
    by (metis list.set_map)
  with rest have "set (map fst rels) \<subseteq> fst ` set (obj_set t k (JObj opts))" by simp
  from Cons.IH [OF this] keys show ?case
    by (simp add: with_options_def r)
qed

lemma with_options_other:
  "k \<notin> set (map fst rels) \<Longrightarrow> obj_get (with_options t rels) k = obj_get t k"
proof (induction rels arbitrary: t)
  case Nil
  then show ?case by (simp add: with_options_def)
next
  case (Cons r rels)
  obtain k' opts where r: "r = (k', opts)" by (cases r)
  from Cons.prems r have "k \<noteq> k'" "k \<notin> set (map fst rels)" by auto
  with Cons.IH [of "obj_set t k' (JObj opts)"] show ?case
    by (simp add: with_options_def r obj_get_set)
qed

lemma relationalAttributes_member:
  "(k, opts) \<in> set (relationalAttributes S t) \<Longrightarrow> (k, JObj opts) \<in> set t"
  by (induction t) (auto split: jsval.splits if_splits)

lemma relationalAttributes_keys:
  "set (map fst (relationalAttributes S t)) \<subseteq> fst ` set t"
  by (auto dest!: relationalAttributes_member intro: rev_image_eqI)

lemma list_search_attributes:
  assumes ret: "list_query S schema query = Inr q'"
      and search: "truthy_text_or_items (q_search query)"
      and terms: "search_list (split_search (q_search query)) \<noteq> []"
      and names: "getSearchableAttributeNames schema = Inr names"
  shows "q_searchAttributes q' =
           Some (Items (supplied_or_default (q_searchAttributes query) names))"
  using assms
  by (auto simp: list_query_def Let_def supplied_or_default_def
      split: if_splits sum.splits option.splits text_or_items.splits selections.splits)

lemma query_search_attributes:
  assumes ret: "query_query S schema query = Inr (selected, q')"
      and search: "truthy_text_or_items (q_search query)"
      and terms: "search_list (split_search (q_search query)) \<noteq> []"
      and names: "getSearchableAttributeNames schema = Inr names"
  shows "q_searchAttributes q' =
           (if truthy_text_or_items (q_searchAttributes query) then q_searchAttributes query
            else Some (Items names))"
  using assms
  by (auto simp: query_query_def Let_def
      split: if_splits sum.splits option.splits text_or_items.splits selections.splits)

text \<open>
  Claim C8 on the code: with a search present, \<^verbatim>\<open>query\<close> passes a comma-separated
  \<^verbatim>\<open>searchAttributes\<close> string on as it is, where \<^verbatim>\<open>list\<close> splits it into the list of
  attribute names, whatever the collaborators of the service are.
\<close>

theorem query_leaves_search_attributes_unparsed:
  "map_sum id (\<lambda>p. q_searchAttributes (snd p)) (query_query S thing_schema red_chair_query)
     = Inr (Some (Text ''title,description''))
   \<and> map_sum id q_searchAttributes (list_query S thing_schema red_chair_query)
     = Inr (Some (Items [''title'', ''description'']))"
  by code_simp

theorem query_leaves_search_attributes_witness:
  "map_sum id (\<lambda>p. q_searchAttributes (snd p))
     (query_query order_service thing_schema red_chair_query)
     = Inr (q_searchAttributes red_chair_query)
   \<and> map_sum id q_searchAttributes (list_query order_service thing_schema red_chair_query)
     = Inr (Some (Items [''title'', ''description'']))"
  using query_leaves_search_attributes_unparsed [of order_service]
  by (simp add: red_chair_query_def)

text \<open>
  Claim C9: when \<^verbatim>\<open>list\<close> is called without \<^verbatim>\<open>attributes\<close> and returns, the names it
  selects are those of \<^verbatim>\<open>getListingAttributeNames\<close>, the keys of the derived list output
  schema. The persistence operation is called with the query that carries the selection
  resolved from them (parsed, relations inferred), which is the caller's query with
  nothing else changed when there is no search; the records it finds are serialised to
  the keys of that selection and then hydrated over its relational attributes; and the
  query returned with the data carries that resolved selection, not the absent one: the
  same keys in the same order, the same value for every attribute that is not hydrated,
  and the very same selection when no relation is hydrated (hydration folds the
  identifier attributes into the options of a relation it fetches).
\<close>

theorem list_without_attributes_uses_listing_names:
  assumes none: "q_attributes query = None"
      and ret: "list_entities S schema query = Inr result"
  shows "\<exists>ops names resolved q' found serialized t.
           makeOpsDefaultIOSchema (toHumanReadableName S) schema = Inr ops
         \<and> names = Map_keys (list_output ops)
         \<and> getListingAttributeNames (toHumanReadableName S) schema = Inr names
         \<and> resolved = inferRelationshipsForEntitySelections S schema
                         (parseEntityAttributePaths S names)
         \<and> list_query S schema query = Inr q'
         \<and> q_attributes q' = Some (Tree resolved)
         \<and> (\<not> truthy_text_or_items (q_search query)
               \<longrightarrow> q' = query\<lparr>q_attributes := Some (Tree resolved)\<rparr>)
         \<and> listEntity S q' = Inr found
         \<and> serialized = map (\<lambda>record. pickKeys S record (map fst resolved)) (data found)
         \<and> result_rest result = rest_of_page found
         \<and> (relationalAttributes S resolved = []
               \<longrightarrow> result_data result = serialized \<and> result_query result = q')
         \<and> (relationalAttributes S resolved \<noteq> []
               \<longrightarrow> (\<exists>relations.
                      all_outcome (hydrateRecords (hydration S) schema
                                     (relationalAttributes S resolved) serialized)
                        = Inr (result_data result, relations)
                    \<and> result_query result
                        = q'\<lparr>q_attributes := Some (Tree (with_options resolved relations))\<rparr>))
         \<and> q_attributes (result_query result) = Some (Tree t)
         \<and> map fst t = map fst resolved
         \<and> (\<forall>k. k \<notin> set (map fst (relationalAttributes S resolved))
                \<longrightarrow> obj_get t k = obj_get resolved k)
         \<and> (relationalAttributes S resolved = [] \<longrightarrow> t = resolved)"
proof -
  from ret obtain q' where q': "list_query S schema query = Inr q'"
    by (cases "list_query S schema query") (auto simp: list_entities_def)
  from list_query_attributes [OF q' none] obtain names where
    n: "getListingAttributeNames (toHumanReadableName S) schema = Inr names"
    and a: "q_attributes q' =
               Some (Tree (inferRelationshipsForEntitySelections S schema
                             (parseEntityAttributePaths S names)))"
    by blast
  define resolved where
    "resolved = inferRelationshipsForEntitySelections S schema (parseEntityAttributePaths S names)"
  from n obtain ops where ops: "makeOpsDefaultIOSchema (toHumanReadableName S) schema = Inr ops"
    and names: "names = Map_keys (list_output ops)"
    by (auto simp: getListingAttributeNames_def split: sum.splits)
  from ret q' obtain found where f: "listEntity S q' = Inr found"
    by (cases "listEntity S q'") (auto simp: list_entities_def)
  have a': "q_attributes q' = Some (Tree resolved)" using a by (simp add: resolved_def)
  define serialized where
    "serialized = map (\<lambda>record. pickKeys S record (map fst resolved)) (data found)"
  have ser: "serializeRecords S (data found) (Tree resolved) = serialized"
    by (simp add: serializeRecords_def serializeRecord_def serialized_def)
  have plain: "\<not> truthy_text_or_items (q_search query)
               \<longrightarrow> q' = query\<lparr>q_attributes := Some (Tree resolved)\<rparr>"
    using q' none n by (auto simp: list_query_def Let_def resolved_def)
  have unhydrated: "relationalAttributes S resolved = []
               \<longrightarrow> result_data result = serialized \<and> result_query result = q'
                   \<and> result_rest result = rest_of_page found"
  proof (intro impI)
    assume "relationalAttributes S resolved = []"
    with ret q' f a' ser
    show "result_data result = serialized \<and> result_query result = q'
            \<and> result_rest result = rest_of_page found"
      by (auto simp: list_entities_def Let_def)
  qed
  have hydrated: "relationalAttributes S resolved \<noteq> []
               \<longrightarrow> (\<exists>relations.
                      all_outcome (hydrateRecords (hydration S) schema
                                     (relationalAttributes S resolved) serialized)
                        = Inr (result_data result, relations)
                    \<and> result_query result
                        = q'\<lparr>q_attributes := Some (Tree (with_options resolved relations))\<rparr>
                    \<and> result_rest result = rest_of_page found)"
  proof (intro impI)
    assume "relationalAttributes S resolved \<noteq> []"
    with ret q' f a' ser
    show "\<exists>relations.
             all_outcome (hydrateRecords (hydration S) schema
                            (relationalAttributes S resolved) serialized)
               = Inr (result_data result, relations)
           \<and> result_query result
               = q'\<lparr>q_attributes := Some (Tree (with_options resolved relations))\<rparr>
           \<and> result_rest result = rest_of_page found"
      by (auto simp: list_entities_def Let_def split: sum.splits prod.splits)
  qed
  have rest: "result_rest result = rest_of_page found"
    using unhydrated hydrated by blast
  have "\<exists>t. q_attributes (result_query result) = Some (Tree t)
         \<and> map fst t = map fst resolved
         \<and> (\<forall>k. k \<notin> set (map fst (relationalAttributes S resolved))
                \<longrightarrow> obj_get t k = obj_get resolved k)
         \<and> (relationalAttributes S resolved = [] \<longrightarrow> t = resolved)"
  proof (cases "relationalAttributes S resolved = []")
    case True
    with unhydrated have "result_query result = q'" by simp
    with a' True show ?thesis by simp
  next
    case False
    with hydrated obtain relations where
      h: "all_outcome (hydrateRecords (hydration S) schema (relationalAttributes S resolved)
            serialized) = Inr (result_data result, relations)"
      and rq: "result_query result = q'\<lparr>q_attributes := Some (Tree (with_options resolved relations))\<rparr>"
      by blast
    from hydrateRecords_relations [OF h]
    have k: "map fst relations = map fst (relationalAttributes S resolved)" .
    have "map fst (with_options resolved relations) = map fst resolved"
      using relationalAttributes_keys [of S resolved] by (simp add: with_options_keys k)
    moreover have "\<forall>k. k \<notin> set (map fst (relationalAttributes S resolved))
                \<longrightarrow> obj_get (with_options resolved relations) k = obj_get resolved k"
      using k by (simp add: with_options_other)
    ultimately show ?thesis using rq False by simp
  qed
  then obtain t where t: "q_attributes (result_query result) = Some (Tree t)"
         "map fst t = map fst resolved"
         "\<forall>k. k \<notin> set (map fst (relationalAttributes S resolved))
                \<longrightarrow> obj_get t k = obj_get resolved k"
         "relationalAttributes S resolved = [] \<longrightarrow> t = resolved"
    by blast
  have un: "relationalAttributes S resolved = []
               \<longrightarrow> result_data result = serialized \<and> result_query result = q'"
    using unhydrated by blast
  have hy: "relationalAttributes S resolved \<noteq> []
               \<longrightarrow> (\<exists>relations.
                      all_outcome (hydrateRecords (hydration S) schema
                                     (relationalAttributes S resolved) serialized)
                        = Inr (result_data result, relations)
                    \<and> result_query result
                        = q'\<lparr>q_attributes := Some (Tree (with_options resolved relations))\<rparr>)"
    using hydrated by blast
  show ?thesis
    apply (rule exI [of _ ops], rule exI [of _ names], rule exI [of _ resolved])
    apply (rule exI [of _ q'], rule exI [of _ found], rule exI [of _ serialized])
    apply (rule exI [of _ t])
    using ops names n resolved_def q' a' plain f serialized_def rest un hy t
    apply (intro conjI)
    apply assumption+
    done
qed

theorem list_without_attributes_witness:
  "map_sum id (\<lambda>r. (result_data r, q_attributes (result_query r)))
     (list_entities listing_service order_schema plain_query)
     = Inr ([[(''id'', JNum 1),
              (''customer'', JObj [(''id'', JStr ''c1''), (''name'', JStr ''Ann'')])],
             [(''id'', JNum 2),
              (''customer'', JObj [(''id'', JStr ''c2''), (''name'', JStr ''Bob'')])]],
            Some (Tree [(''id'', JBool True), (''customerId'', JBool True),
              (''customer'', JObj [(''entityName'', JStr ''Customer''),
                                   (''attributes'', JArr [JStr ''name'', JStr ''id''])])]))
   \<and> (\<exists>result names found t.
         list_entities listing_service order_schema plain_query = Inr result
       \<and> getListingAttributeNames (\<lambda>s. s) order_schema = Inr names
       \<and> names = [''id'', ''customerId'', ''customer'']
       \<and> listEntity listing_service
            (plain_query\<lparr>q_attributes :=
               Some (Tree [(''id'', JBool True), (''customerId'', JBool True),
                           (''customer'', JObj customer_options)])\<rparr>) = Inr found
       \<and> data found = stored_orders
       \<and> q_attributes (result_query result) = Some (Tree t)
       \<and> map fst t = names)"
proof -
  have ev: "map_sum id (\<lambda>r. (result_data r, q_attributes (result_query r)))
     (list_entities listing_service order_schema plain_query)
     = Inr ([[(''id'', JNum 1),
              (''customer'', JObj [(''id'', JStr ''c1''), (''name'', JStr ''Ann'')])],
             [(''id'', JNum 2),
              (''customer'', JObj [(''id'', JStr ''c2''), (''name'', JStr ''Bob'')])]],
            Some (Tree [(''id'', JBool True), (''customerId'', JBool True),
              (''customer'', JObj [(''entityName'', JStr ''Customer''),
                                   (''attributes'', JArr [JStr ''name'', JStr ''id''])])]))"
    by code_simp
  then obtain result where
    ret: "list_entities listing_service order_schema plain_query = Inr result"
    by (cases "list_entities listing_service order_schema plain_query") auto
  have none: "q_attributes plain_query = None" by (simp add: plain_query_def)
  have plain: "\<not> truthy_text_or_items (q_search plain_query)" by (simp add: plain_query_def)
  have hr: "toHumanReadableName listing_service = (\<lambda>s. s)"
    by (simp add: listing_service_def order_service_def)
  have listing: "getListingAttributeNames (\<lambda>s. s) order_schema
                   = Inr [''id'', ''customerId'', ''customer'']"
    by code_simp
  from list_without_attributes_uses_listing_names [OF none ret]
  obtain names resolved q' found t where
    n: "getListingAttributeNames (toHumanReadableName listing_service) order_schema = Inr names"
    and r: "resolved = inferRelationshipsForEntitySelections listing_service order_schema
                         (parseEntityAttributePaths listing_service names)"
    and q: "\<not> truthy_text_or_items (q_search plain_query)
               \<longrightarrow> q' = plain_query\<lparr>q_attributes := Some (Tree resolved)\<rparr>"
    and f: "listEntity listing_service q' = Inr found"
    and t: "q_attributes (result_query result) = Some (Tree t)"
    and k: "map fst t = map fst resolved"
    by blast
  from n hr listing have names: "names = [''id'', ''customerId'', ''customer'']" by simp
  have res: "resolved = [(''id'', JBool True), (''customerId'', JBool True),
                         (''customer'', JObj customer_options)]"
    unfolding r names by (simp add: listing_service_def order_service_def)
  then have "map fst resolved = names" by (simp add: names)
  with k have kt: "map fst t = names" by simp
  from q plain res have q'eq: "q' = plain_query\<lparr>q_attributes :=
               Some (Tree [(''id'', JBool True), (''customerId'', JBool True),
                           (''customer'', JObj customer_options)])\<rparr>"
    by simp
  from f have found: "listEntity listing_service
            (plain_query\<lparr>q_attributes :=
               Some (Tree [(''id'', JBool True), (''customerId'', JBool True),
                           (''customer'', JObj customer_options)])\<rparr>) = Inr found"
    by (simp add: q'eq)
  then have d: "data found = stored_orders"
    by (auto simp: listing_service_def order_service_def)
  have all: "list_entities listing_service order_schema plain_query = Inr result
       \<and> getListingAttributeNames (\<lambda>s. s) order_schema = Inr names
       \<and> names = [''id'', ''customerId'', ''customer'']
       \<and> listEntity listing_service
            (plain_query\<lparr>q_attributes :=
               Some (Tree [(''id'', JBool True), (''customerId'', JBool True),
                           (''customer'', JObj customer_options)])\<rparr>) = Inr found
       \<and> data found = stored_orders
       \<and> q_attributes (result_query result) = Some (Tree t)
       \<and> map fst t = names"
    using ret listing names found d t kt by simp
  have "\<exists>result names found t.
         list_entities listing_service order_schema plain_query = Inr result
       \<and> getListingAttributeNames (\<lambda>s. s) order_schema = Inr names
       \<and> names = [''id'', ''customerId'', ''customer'']
       \<and> listEntity listing_service
            (plain_query\<lparr>q_attributes :=
               Some (Tree [(''id'', JBool True), (''customerId'', JBool True),
                           (''customer'', JObj customer_options)])\<rparr>) = Inr found
       \<and> data found = stored_orders
       \<and> q_attributes (result_query result) = Some (Tree t)
       \<and> map fst t = names"
    by (rule exI [of _ result], rule exI [of _ names], rule exI [of _ found],
        rule exI [of _ t]) (rule all)
  with ev show ?thesis by (rule conjI)
qed

end
